theory Spec2Isabelle
  imports Main "HOL-Library.Word"
begin

unbundle bit_operations_syntax

section \<open>The PBP container tool: data model\<close>

text \<open>
  The development embeds \<^verbatim>\<open>main.c\<close> of zPBPTool. Integer widths are those of the
  LP64 targets named in the build comments of the source (Linux gcc, macOS clang):
  \<^verbatim>\<open>uint32_t\<close> is \<^typ>\<open>32 word\<close>, while \<^verbatim>\<open>long\<close> and \<^verbatim>\<open>size_t\<close> have 64 bits, which no
  file length or sum below leaves, so they are \<^typ>\<open>int\<close> and \<^typ>\<open>nat\<close>. The header is
  written and read as raw struct memory; the host is taken to be little-endian.
\<close>

type_synonym byte = "8 word"
type_synonym u16 = "16 word"
type_synonym u32 = "32 word"

text \<open>\<^verbatim>\<open>PBPHeader\<close>: the packed struct; the three arrays are lists of 4, 2 and 8 entries.\<close>

record PBPHeader =
  signature :: "byte list"
  version :: "u16 list"
  offset :: "u32 list"

definition sizeof_PBPHeader :: nat where
  "sizeof_PBPHeader = 40"

definition default_file_names :: "string list" where
  "default_file_names =
     [''PARAM.SFO'', ''ICON0.PNG'', ''ICON1.PMF'', ''PIC0.PNG'',
      ''PIC1.PNG'', ''SND0.AT3'', ''DATA.PSP'', ''DATA.PSAR'']"

subsection \<open>Header bytes\<close>

definition wr16 :: "u16 \<Rightarrow> byte list" where
  "wr16 w = [ucast w, ucast (drop_bit 8 w)]"

definition wr32 :: "u32 \<Rightarrow> byte list" where
  "wr32 w = [ucast w, ucast (drop_bit 8 w), ucast (drop_bit 16 w), ucast (drop_bit 24 w)]"

definition rd16 :: "byte list \<Rightarrow> nat \<Rightarrow> u16" where
  "rd16 bs k = ucast (bs ! k) OR push_bit 8 (ucast (bs ! (k + 1)))"

definition rd32 :: "byte list \<Rightarrow> nat \<Rightarrow> u32" where
  "rd32 bs k = ucast (bs ! k) OR push_bit 8 (ucast (bs ! (k + 1)))
     OR push_bit 16 (ucast (bs ! (k + 2))) OR push_bit 24 (ucast (bs ! (k + 3)))"

text \<open>The 40 bytes that \<^verbatim>\<open>fwrite(&header, 1, sizeof(header), out)\<close> emits.\<close>

definition header_bytes :: "PBPHeader \<Rightarrow> byte list" where
  "header_bytes h = signature h @ concat (map wr16 (version h)) @ concat (map wr32 (offset h))"

text \<open>The struct that \<^verbatim>\<open>fread(&header, 1, sizeof(header), f)\<close> fills from 40 bytes.\<close>

definition read_header :: "byte list \<Rightarrow> PBPHeader" where
  "read_header bs =
     \<lparr>signature = take 4 bs,
      version = [rd16 bs 4, rd16 bs 6],
      offset = [rd32 bs 8, rd32 bs 12, rd32 bs 16, rd32 bs 20,
                rd32 bs 24, rd32 bs 28, rd32 bs 32, rd32 bs 36]\<rparr>"

subsection \<open>The environment of the process\<close>

text \<open>
  The file system and the C library as the tool sees them: the contents of the files that
  can be read, which paths \<^verbatim>\<open>fopen(path, "wb")\<close> can create, how many bytes a file may
  hold (\<open>None\<close>: no limit), for which paths \<^verbatim>\<open>mkdir\<close> succeeds or fails with
  \<^verbatim>\<open>EEXIST\<close>, and the buffering of an output stream: \<open>buffered w m n\<close> is the number of
  bytes the stream keeps back when \<open>n\<close> bytes are written to it while it holds \<open>m\<close>.
  The C standard leaves that number to the library, so it is a parameter.
\<close>

record world =
  files :: "string \<Rightarrow> byte list option"
  creatable :: "string \<Rightarrow> bool"
  room :: "string \<Rightarrow> nat option"
  mkdir_ok :: "string \<Rightarrow> bool"
  buffered :: "nat \<Rightarrow> nat \<Rightarrow> nat"

text \<open>A \<^verbatim>\<open>FILE*\<close> open for writing: its path and the bytes accepted but not yet sent.\<close>

record stream =
  spath :: string
  pending :: "byte list"

text \<open>The lines the tool prints, one constructor for each format string of the source.\<close>

datatype msg =
    Failed_open string
  | Error string
  | Invalid_version nat nat
  | Skipping string
  | Failed_create string
  | Failed_write string
  | Failed_mkdir string
  | Failed_read_input "string option"
  | Failed_create_output string
  | Usage string
  | Invalid_argument string
  | Header_banner
  | Signature_line "byte list"
  | Version_line nat nat
  | Offsets_banner
  | Offset_line string "nat option"

text \<open>
  The state of a run: the file system, what went to standard output and to standard
  error, and \<open>exited = Some c\<close> once \<^verbatim>\<open>exit(c)\<close> has been called.
\<close>

record proc =
  fs :: world
  out :: "msg list"
  err :: "msg list"
  exited :: "nat option"

definition start :: "world \<Rightarrow> proc" where
  "start w = \<lparr>fs = w, out = [], err = [], exited = None\<rparr>"

definition die :: "proc \<Rightarrow> msg list \<Rightarrow> proc" where
  "die st ms = st\<lparr>err := err st @ ms, exited := Some 1\<rparr>"

text \<open>\<^verbatim>\<open>print_error_and_exit\<close>\<close>

definition print_error_and_exit :: "proc \<Rightarrow> string \<Rightarrow> proc" where
  "print_error_and_exit st m = die st [Error m]"

text \<open>
  Sending bytes to the file at \<open>p\<close>: as many as the file has room for are appended; the
  result tells how many.
\<close>

definition transmit :: "world \<Rightarrow> string \<Rightarrow> byte list \<Rightarrow> world \<times> nat" where
  "transmit w p d =
     (let old = (case files w p of None \<Rightarrow> [] | Some b \<Rightarrow> b);
          k = (case room w p of None \<Rightarrow> length d | Some r \<Rightarrow> min (length d) (r - length old))
      in (w\<lparr>files := (files w)(p \<mapsto> old @ take k d)\<rparr>, k))"

text \<open>
  \<^verbatim>\<open>fopen(path, "wb")\<close>: creates or truncates the file and gives a stream with nothing
  pending; \<open>None\<close> when it fails.
\<close>

definition fopen_wb :: "world \<Rightarrow> string \<Rightarrow> (world \<times> stream) option" where
  "fopen_wb w p =
     (if creatable w p
      then Some (w\<lparr>files := (files w)(p \<mapsto> [])\<rparr>, \<lparr>spath = p, pending = []\<rparr>)
      else None)"

text \<open>
  \<^verbatim>\<open>fwrite(d, 1, n, out)\<close>: the stream takes the bytes, keeps back what the library
  buffers and sends the rest. The count returned is \<open>n\<close> unless sending came up short;
  a short count is the number of bytes of \<open>d\<close> that reached the file, and what was
  pending is lost.
\<close>

definition fwrite :: "world \<Rightarrow> stream \<Rightarrow> byte list \<Rightarrow> world \<times> stream \<times> nat" where
  "fwrite w s d =
     (let all = pending s @ d;
          keep = min (buffered w (length (pending s)) (length d)) (length all);
          now = take (length all - keep) all
      in case transmit w (spath s) now of
           (w', n) \<Rightarrow>
             if n = length now
             then (w', s\<lparr>pending := drop (length all - keep) all\<rparr>, length d)
             else (w', s\<lparr>pending := []\<rparr>, n - length (pending s)))"

text \<open>
  \<^verbatim>\<open>fclose(out)\<close>: what is pending is sent. The source never looks at the result of
  \<^verbatim>\<open>fclose\<close>, so only the file system is returned.
\<close>

definition fclose :: "world \<Rightarrow> stream \<Rightarrow> world" where
  "fclose w s = fst (transmit w (spath s) (pending s))"

section \<open>The operations\<close>

text \<open>\<^verbatim>\<open>validate_header\<close>: the returned code, and the line it prints on a bad version.\<close>

definition validate_header :: "PBPHeader \<Rightarrow> int \<times> msg list" where
  "validate_header h =
     (if signature h ! 1 \<noteq> 0x50 \<or> signature h ! 2 \<noteq> 0x42 \<or> signature h ! 3 \<noteq> 0x50
      then (- 1, [])
      else if version h ! 1 \<noteq> 1 \<and> version h ! 0 \<noteq> 0
      then (- 2, [Invalid_version (unat (version h ! 0)) (unat (version h ! 1))])
      else (0, []))"

text \<open>One round of the printing loop of \<^verbatim>\<open>analyze_file\<close>.\<close>

definition analyze_line :: "PBPHeader \<Rightarrow> nat \<Rightarrow> msg" where
  "analyze_line h i =
     (let off = offset h ! i
      in if i + 1 < 8 \<and> offset h ! (i + 1) > off
         then Offset_line (default_file_names ! i) (Some (unat off))
         else Offset_line (default_file_names ! i) None)"

text \<open>\<^verbatim>\<open>analyze_file\<close>\<close>

definition analyze_file :: "proc \<Rightarrow> string \<Rightarrow> proc" where
  "analyze_file st file_path =
     (case files (fs st) file_path of
        None \<Rightarrow> die st [Failed_open file_path]
      | Some c \<Rightarrow>
          if length c < sizeof_PBPHeader then print_error_and_exit st ''Failed to read header''
          else
            let header = read_header (take sizeof_PBPHeader c);
                (v, ms) = validate_header header
            in if v \<noteq> 0
               then print_error_and_exit (st\<lparr>err := err st @ ms\<rparr>) ''Header validation failed''
               else st\<lparr>out := out st @
                      [Header_banner, Signature_line (signature header),
                       Version_line (unat (version header ! 1)) (unat (version header ! 0)),
                       Offsets_banner] @ map (analyze_line header) [0..<8]\<rparr>)"

text \<open>
  \<^verbatim>\<open>read_file_to_buffer\<close>: the buffer and its length as one list, \<open>None\<close> for the
  \<^verbatim>\<open>NULL\<close> return. A null path (\<open>None\<close>) cannot be opened. Seeking and allocation are
  taken to succeed on a file that opens, also \<^verbatim>\<open>malloc(0)\<close> for an empty file, as with
  glibc and on macOS.
\<close>

definition read_file_to_buffer :: "world \<Rightarrow> string option \<Rightarrow> byte list option" where
  "read_file_to_buffer w path = (case path of None \<Rightarrow> None | Some p \<Rightarrow> files w p)"

subsection \<open>unpack\<close>

text \<open>The length computed for segment \<open>i\<close> at the head of the loop of \<^verbatim>\<open>unpack_pbp\<close>.\<close>

definition segment_size :: "PBPHeader \<Rightarrow> int \<Rightarrow> nat \<Rightarrow> u32" where
  "segment_size header file_len i =
     (let off = offset header ! i
      in if i + 1 < 8
         then (if offset header ! (i + 1) > off then offset header ! (i + 1) - off else 0)
         else (if (word_of_int file_len :: u32) > off then word_of_int file_len - off else 0))"

text \<open>
  \<^verbatim>\<open>snprintf(outpath, sizeof(outpath), "%s/%s", dir_path, default_file_names[i])\<close> with
  the buffer of 4096 bytes: at most 4095 characters are kept.
\<close>

definition outpath :: "string \<Rightarrow> nat \<Rightarrow> string" where
  "outpath dir_path i = take 4095 (dir_path @ ''/'' @ default_file_names ! i)"

text \<open>One round of the loop of \<^verbatim>\<open>unpack_pbp\<close>; \<open>content\<close> is the whole input file.\<close>

definition unpack_segment :: "string \<Rightarrow> byte list \<Rightarrow> PBPHeader \<Rightarrow> nat \<Rightarrow> proc \<Rightarrow> proc" where
  "unpack_segment dir_path content header i st =
     (let off = offset header ! i;
          file_len = int (length content);
          file_size = segment_size header file_len i
      in if file_size = 0 then st
         else
           let corrected_offset = uint off - int sizeof_PBPHeader
           in if corrected_offset < 0 \<or> corrected_offset + uint file_size > file_len
              then st\<lparr>err := err st @ [Skipping (default_file_names ! i)]\<rparr>
              else
                case fopen_wb (fs st) (outpath dir_path i) of
                  None \<Rightarrow> st\<lparr>err := err st @ [Failed_create (outpath dir_path i)]\<rparr>
                | Some (w1, out1) \<Rightarrow>
                    (case fwrite w1 out1
                            (take (unat file_size) (drop (nat corrected_offset) content)) of
                       (w2, out2, k) \<Rightarrow>
                         if k \<noteq> unat file_size
                         then st\<lparr>fs := fclose w2 out2,
                                err := err st @ [Failed_write (outpath dir_path i)]\<rparr>
                         else st\<lparr>fs := fclose w2 out2\<rparr>))"

function unpack_loop :: "string \<Rightarrow> byte list \<Rightarrow> PBPHeader \<Rightarrow> nat \<Rightarrow> proc \<Rightarrow> proc" where
  "unpack_loop dir_path content header i st =
     (if i < 8 then unpack_loop dir_path content header (i + 1)
                      (unpack_segment dir_path content header i st)
      else st)"
  by pat_completeness auto
termination
  by (relation "measure (\<lambda>(d, c, h, i, st). 8 - i)") auto

declare unpack_loop.simps [simp del]

text \<open>\<^verbatim>\<open>unpack_pbp\<close>\<close>

definition unpack_pbp :: "proc \<Rightarrow> string \<Rightarrow> string \<Rightarrow> proc" where
  "unpack_pbp st input_path dir_path =
     (case files (fs st) input_path of
        None \<Rightarrow> die st [Failed_open input_path]
      | Some c \<Rightarrow>
          if length c < sizeof_PBPHeader then print_error_and_exit st ''Failed to read header''
          else
            let header = read_header (take sizeof_PBPHeader c);
                (v, ms) = validate_header header
            in if v \<noteq> 0
               then print_error_and_exit (st\<lparr>err := err st @ ms\<rparr>) ''Header validation failed''
               else if \<not> mkdir_ok (fs st) dir_path then die st [Failed_mkdir dir_path]
               else unpack_loop dir_path c header 0 st)"

subsection \<open>pack\<close>

text \<open>
  The reading loop of \<^verbatim>\<open>pack_pbp\<close> over the remaining input paths: \<open>offs\<close> and \<open>cs\<close>
  are the entries of \<^verbatim>\<open>header.offset\<close> and \<^verbatim>\<open>contents\<close> filled so far (a buffer
  carries its own length, so \<^verbatim>\<open>sizes\<close> is not kept apart). \<open>Inl p\<close>: reading \<open>p\<close>
  failed.
\<close>

fun pack_read :: "world \<Rightarrow> string option list \<Rightarrow> u32 \<Rightarrow> u32 list \<Rightarrow> byte list option list
    \<Rightarrow> string option + (u32 list \<times> byte list option list)" where
  "pack_read w [] curr_offset offs cs = Inr (offs, cs)"
| "pack_read w (p # ps) curr_offset offs cs =
     (if p = Some ''NULL'' then pack_read w ps curr_offset (offs @ [curr_offset]) (cs @ [None])
      else case read_file_to_buffer w p of
             None \<Rightarrow> Inl p
           | Some buf \<Rightarrow>
               pack_read w ps (curr_offset + of_nat (length buf))
                 (offs @ [curr_offset]) (cs @ [Some buf]))"

text \<open>
  The writing loop of \<^verbatim>\<open>pack_pbp\<close> over the remaining buffers; the flag tells whether
  every \<^verbatim>\<open>fwrite\<close> returned the count it was given.
\<close>

fun pack_write :: "world \<Rightarrow> stream \<Rightarrow> byte list option list \<Rightarrow> world \<times> stream \<times> bool" where
  "pack_write w s [] = (w, s, True)"
| "pack_write w s (c # cs) =
     (case c of
        None \<Rightarrow> pack_write w s cs
      | Some buf \<Rightarrow>
          if length buf = 0 then pack_write w s cs
          else (case fwrite w s buf of
                  (w', s', k) \<Rightarrow>
                    if k \<noteq> length buf then (w', s', False) else pack_write w' s' cs))"

text \<open>\<^verbatim>\<open>pack_pbp\<close>\<close>

definition pack_pbp :: "proc \<Rightarrow> string \<Rightarrow> string option list \<Rightarrow> proc" where
  "pack_pbp st output_path input_paths =
     (case pack_read (fs st) input_paths (of_nat sizeof_PBPHeader) [] [] of
        Inl p \<Rightarrow> die st [Failed_read_input p]
      | Inr (offs, contents) \<Rightarrow>
          (let header = \<lparr>signature = [0x00, 0x50, 0x42, 0x50], version = [0, 1], offset = offs\<rparr>
           in (case fopen_wb (fs st) output_path of
                 None \<Rightarrow> die st [Failed_create_output output_path]
               | Some (w1, out1) \<Rightarrow>
                   (case fwrite w1 out1 (header_bytes header) of
                      (w2, out2, k) \<Rightarrow>
                        if k \<noteq> sizeof_PBPHeader
                        then print_error_and_exit (st\<lparr>fs := fclose w2 out2\<rparr>)
                               ''Failed to write header''
                        else (case pack_write w2 out2 contents of
                                (w3, out3, ok) \<Rightarrow>
                                  if \<not> ok
                                  then print_error_and_exit (st\<lparr>fs := fclose w3 out3\<rparr>)
                                         ''Failed to write file contents''
                                  else st\<lparr>fs := fclose w3 out3\<rparr>)))))"

subsection \<open>main\<close>

text \<open>\<^verbatim>\<open>argv[k]\<close>: the entry after the last argument is the null pointer.\<close>

definition arg :: "string list \<Rightarrow> nat \<Rightarrow> string option" where
  "arg argv k = (if k < length argv then Some (argv ! k) else None)"

definition pack_usage :: string where
  "pack_usage = ''pbptool pack <output.pbp> <param.sfo> <icon0.png> <icon1.pmf> '' @
     ''<pic0.png> <pic1.png> <snd0.at3> <data.psp> <data.psar>''"

text \<open>\<^verbatim>\<open>main\<close>: the final state and the exit status of the process.\<close>

definition main :: "world \<Rightarrow> string list \<Rightarrow> proc \<times> nat" where
  "main w argv =
     (let st = start w;
          finish = (\<lambda>r. (r, case exited r of None \<Rightarrow> 0 | Some c \<Rightarrow> c))
      in if length argv < 2
         then (die st [Usage ''pbptool <pack | unpack | analyze | help>''], 1)
         else
           let cmd = argv ! 1
           in if cmd = ''pack'' then
                (if length argv < 10 then (st\<lparr>err := [Usage pack_usage]\<rparr>, 1)
                 else finish (pack_pbp st (argv ! 2) (map (\<lambda>i. arg argv (3 + i)) [0..<8])))
              else if cmd = ''unpack'' then
                (if length argv < 4 then (st\<lparr>err := [Usage ''pbptool unpack <input.pbp> <output_dir>'']\<rparr>, 1)
                 else finish (unpack_pbp st (argv ! 2) (argv ! 3)))
              else if cmd = ''analyze'' then
                (if length argv < 3 then (st\<lparr>err := [Usage ''pbptool analyze <input.pbp>'']\<rparr>, 1)
                 else finish (analyze_file st (argv ! 2)))
              else if cmd = ''help'' then
                (st\<lparr>out := [Usage ''pbptool <pack | unpack | analyze | help>'']\<rparr>, 0)
              else (st\<lparr>err := [Invalid_argument cmd]\<rparr>, 1))"

section \<open>Vocabulary for the statements\<close>

text \<open>
  What the reading loop of \<^verbatim>\<open>pack_pbp\<close> leaves in \<^verbatim>\<open>contents[i]\<close> for the input
  path \<open>p\<close>, the bytes that slot contributes to the container, and when a path makes
  the loop fail.
\<close>

text \<open>The cursor before each of the segments of the given lengths, from \<open>cur\<close> on.\<close>

fun cursors :: "u32 \<Rightarrow> nat list \<Rightarrow> u32 list" where
  "cursors cur [] = []"
| "cursors cur (n # ns) = cur # cursors (cur + of_nat n) ns"

definition slot_buffer :: "world \<Rightarrow> string option \<Rightarrow> byte list option" where
  "slot_buffer w p = (if p = Some ''NULL'' then None else read_file_to_buffer w p)"

definition buffer_bytes :: "byte list option \<Rightarrow> byte list" where
  "buffer_bytes c = (case c of None \<Rightarrow> [] | Some b \<Rightarrow> b)"

definition slot_bytes :: "world \<Rightarrow> string option \<Rightarrow> byte list" where
  "slot_bytes w p = buffer_bytes (slot_buffer w p)"

definition unreadable :: "world \<Rightarrow> string option \<Rightarrow> bool" where
  "unreadable w p \<longleftrightarrow> p \<noteq> Some ''NULL'' \<and> read_file_to_buffer w p = None"

text \<open>The header that \<^verbatim>\<open>pack_pbp\<close> builds for the input paths \<open>ins\<close>.\<close>

definition pack_header :: "world \<Rightarrow> string option list \<Rightarrow> PBPHeader" where
  "pack_header w ins =
     \<lparr>signature = [0x00, 0x50, 0x42, 0x50], version = [0, 1],
      offset = cursors 40 (map (\<lambda>p. length (slot_bytes w p)) ins)\<rparr>"

text \<open>What round \<open>i\<close> of the loop of \<^verbatim>\<open>unpack_pbp\<close> can print.\<close>

definition segment_msgs :: "string \<Rightarrow> nat \<Rightarrow> msg set" where
  "segment_msgs dir i =
     {Skipping (default_file_names ! i), Failed_create (outpath dir i), Failed_write (outpath dir i)}"

text \<open>The logical content of an output stream: the file so far and what is pending.\<close>

definition holds :: "world \<Rightarrow> stream \<Rightarrow> byte list \<Rightarrow> bool" where
  "holds w s bs \<longleftrightarrow> (\<exists>old. files w (spath s) = Some old \<and> old @ pending s = bs)"

text \<open>The file at \<open>p\<close> may take \<open>n\<close> bytes.\<close>

definition room_for :: "world \<Rightarrow> string \<Rightarrow> nat \<Rightarrow> bool" where
  "room_for w p n = (case room w p of None \<Rightarrow> True | Some r \<Rightarrow> n \<le> r)"

section \<open>Concrete file systems and command lines\<close>

text \<open>A stream that keeps up to 4096 bytes and sends all it holds when more arrive.\<close>

definition block_buffer :: "nat \<Rightarrow> nat \<Rightarrow> nat" where
  "block_buffer m n = (if m + n \<le> 4096 then m + n else 0)"

text \<open>A file system with small source files, where every path can be written.\<close>

definition demo_world :: world where
  "demo_world =
     \<lparr>files = [''a.sfo'' \<mapsto> [1], ''data.bin'' \<mapsto> [2],
               ''f0'' \<mapsto> [10], ''f1'' \<mapsto> [11], ''f2'' \<mapsto> [12], ''f3'' \<mapsto> [13],
               ''f4'' \<mapsto> [14], ''f5'' \<mapsto> [15], ''f6'' \<mapsto> [16], ''f7'' \<mapsto> [17]],
      creatable = (\<lambda>p. True), room = (\<lambda>p. None), mkdir_ok = (\<lambda>p. True),
      buffered = block_buffer\<rparr>"

definition sfo_and_psar :: "string option list" where
  "sfo_and_psar = [Some ''a.sfo'', Some ''NULL'', Some ''NULL'', Some ''NULL'', Some ''NULL'',
      Some ''NULL'', Some ''NULL'', Some ''data.bin'']"

text \<open>
  The same sources on a file system where no file can take more than 10 bytes, and a file
  system where no file can be created.
\<close>

definition full_disk_world :: world where
  "full_disk_world =
     \<lparr>files = [''a.sfo'' \<mapsto> [1], ''data.bin'' \<mapsto> [2]],
      creatable = (\<lambda>p. True), room = (\<lambda>p. Some 10), mkdir_ok = (\<lambda>p. True),
      buffered = block_buffer\<rparr>"

definition read_only_world :: world where
  "read_only_world =
     \<lparr>files = [''a.sfo'' \<mapsto> [1], ''data.bin'' \<mapsto> [2]],
      creatable = (\<lambda>p. False), room = (\<lambda>p. None), mkdir_ok = (\<lambda>p. True),
      buffered = block_buffer\<rparr>"

text \<open>A source file of \<open>2\<^sup>3\<^sup>2 - 40\<close> bytes: with the header it fills the 32-bit offset range.\<close>

definition big_file :: "byte list" where
  "big_file = replicate 4294967256 0"

definition big_world :: world where
  "big_world = \<lparr>files = [''big.psar'' \<mapsto> big_file],
      creatable = (\<lambda>p. True), room = (\<lambda>p. None), mkdir_ok = (\<lambda>p. True),
      buffered = block_buffer\<rparr>"

definition big_first :: "string option list" where
  "big_first = [Some ''big.psar'', Some ''NULL'', Some ''NULL'', Some ''NULL'', Some ''NULL'',
      Some ''NULL'', Some ''NULL'', Some ''NULL'']"

text \<open>Headers with a fixed signature: version pairs the validator rejects.\<close>

definition bad_version :: PBPHeader where
  "bad_version = \<lparr>signature = [0x00, 0x50, 0x42, 0x50], version = [5, 0],
      offset = [40, 40, 40, 40, 40, 40, 40, 40]\<rparr>"

definition swapped_version :: PBPHeader where
  "swapped_version = \<lparr>signature = [0x00, 0x50, 0x42, 0x50], version = [1, 0],
      offset = [40, 40, 40, 40, 40, 40, 40, 40]\<rparr>"

text \<open>The header of a container without segments, and a file length beyond 32 bits.\<close>

definition header_only :: PBPHeader where
  "header_only = \<lparr>signature = [0x00, 0x50, 0x42, 0x50], version = [0, 1],
      offset = [40, 40, 40, 40, 40, 40, 40, 40]\<rparr>"

definition huge_len :: int where
  "huge_len = 4294967306"

text \<open>A container with one byte in the first and one in the last segment.\<close>

definition sfo_header :: PBPHeader where
  "sfo_header = \<lparr>signature = [0x00, 0x50, 0x42, 0x50], version = [0, 1],
      offset = [40, 41, 41, 41, 41, 41, 41, 41]\<rparr>"

definition sfo_container :: "byte list" where
  "sfo_container = header_bytes sfo_header @ [1, 2]"



text \<open>
  The container that packing eight sources of one byte gives, cut to 46 bytes (before
  the last offset, 47) and to 10 bytes (inside the header).
\<close>

definition one_byte_header :: PBPHeader where
  "one_byte_header = \<lparr>signature = [0x00, 0x50, 0x42, 0x50], version = [0, 1],
      offset = [40, 41, 42, 43, 44, 45, 46, 47]\<rparr>"

definition one_byte_container :: "byte list" where
  "one_byte_container = header_bytes one_byte_header @ [10, 11, 12, 13, 14, 15, 16, 17]"

definition cut_container :: "byte list" where
  "cut_container = take 46 one_byte_container"

definition tiny_container :: "byte list" where
  "tiny_container = take 10 one_byte_container"

definition truncated_world :: world where
  "truncated_world =
     \<lparr>files = [''cut.pbp'' \<mapsto> cut_container, ''tiny.pbp'' \<mapsto> tiny_container],
      creatable = (\<lambda>p. True), room = (\<lambda>p. None), mkdir_ok = (\<lambda>p. True),
      buffered = block_buffer\<rparr>"

text \<open>The same files where no directory can be made, and where no file can be created.\<close>

definition no_mkdir_world :: world where
  "no_mkdir_world = truncated_world\<lparr>mkdir_ok := (\<lambda>p. False)\<rparr>"

definition no_create_world :: world where
  "no_create_world = truncated_world\<lparr>creatable := (\<lambda>p. False)\<rparr>"

text \<open>
  A container with segments of 1, 1, 2 and 16 bytes before the last one, cut to 46 bytes,
  and a directory path of 4090 characters (409 components of 9 characters).
\<close>

definition mix_header :: PBPHeader where
  "mix_header = \<lparr>signature = [0x00, 0x50, 0x42, 0x50], version = [0, 1],
      offset = [40, 41, 42, 44, 44, 44, 44, 60]\<rparr>"

definition mix_container :: "byte list" where
  "mix_container = header_bytes mix_header @ [10, 11, 12, 13, 14, 15]"

definition long_dir :: string where
  "long_dir = concat (replicate 409 ''/ddddddddd'')"

definition mix_world :: world where
  "mix_world =
     \<lparr>files = [''mix.pbp'' \<mapsto> mix_container],
      creatable = (\<lambda>p. True), room = (\<lambda>p. None), mkdir_ok = (\<lambda>p. True),
      buffered = block_buffer\<rparr>"

text \<open>
  Packing eight sources of one byte and unpacking the result; packing the scenario with
  a first and a last source only.
\<close>

definition eight_files :: "string option list" where
  "eight_files = [Some ''f0'', Some ''f1'', Some ''f2'', Some ''f3'',
      Some ''f4'', Some ''f5'', Some ''f6'', Some ''f7'']"

definition roundtrip_pack_argv :: "string list" where
  "roundtrip_pack_argv = [''pbptool'', ''pack'', ''out.pbp'',
      ''f0'', ''f1'', ''f2'', ''f3'', ''f4'', ''f5'', ''f6'', ''f7'']"

definition packed_world :: world where
  "packed_world = fs (fst (main demo_world roundtrip_pack_argv))"

definition unpacked_world :: world where
  "unpacked_world = fs (fst (main packed_world [''pbptool'', ''unpack'', ''out.pbp'', ''dir'']))"

definition scenario_pack_argv :: "string list" where
  "scenario_pack_argv = [''pbptool'', ''pack'', ''out.bin'',
      ''a.sfo'', ''NULL'', ''NULL'', ''NULL'', ''NULL'', ''NULL'', ''NULL'', ''data.bin'']"

definition scenario_world :: world where
  "scenario_world = fs (fst (main demo_world scenario_pack_argv))"

section \<open>Reading back the header bytes\<close>

lemma join16: "(ucast (ucast (w :: u16) :: byte) :: u16) OR push_bit 8 (ucast (ucast (drop_bit 8 w) :: byte)) = w"
  apply (rule bit_word_eqI)
  apply (auto simp add: bit_simps not_less)
  done

lemma join32: "(ucast (ucast (w :: u32) :: byte) :: u32) OR push_bit 8 (ucast (ucast (drop_bit 8 w) :: byte))
   OR push_bit 16 (ucast (ucast (drop_bit 16 w) :: byte)) OR push_bit 24 (ucast (ucast (drop_bit 24 w) :: byte)) = w"
  apply (rule bit_word_eqI)
  apply (simp add: bit_simps not_less)
  apply (auto simp add: not_less)
  using linordered_semidom_class.add_diff_inverse apply fastforce
  done

lemma list4: "length xs = 4 \<Longrightarrow> \<exists>a b c d. xs = [a, b, c, d]"
  by (auto simp add: eval_nat_numeral length_Suc_conv)

lemma list2: "length xs = 2 \<Longrightarrow> \<exists>a b. xs = [a, b]"
  by (auto simp add: eval_nat_numeral length_Suc_conv)

lemma list8: "length xs = 8 \<Longrightarrow> \<exists>a b c d e f g h. xs = [a, b, c, d, e, f, g, h]"
  by (auto simp add: eval_nat_numeral length_Suc_conv)

lemma length_wr16: "length (wr16 w) = 2" by (simp add: wr16_def)
lemma length_wr32: "length (wr32 w) = 4" by (simp add: wr32_def)

lemma length_concat_wr16: "length (concat (map wr16 vs)) = 2 * length vs"
  by (induction vs) (simp_all add: length_wr16)

lemma length_concat_wr32: "length (concat (map wr32 vs)) = 4 * length vs"
  by (induction vs) (simp_all add: length_wr32)

lemma length_header_bytes:
  "length (header_bytes h) = length (signature h) + 2 * length (version h) + 4 * length (offset h)"
  by (simp add: header_bytes_def length_concat_wr16 length_concat_wr32)

lemma read_header_bytes:
  assumes "length (signature h) = 4" "length (version h) = 2" "length (offset h) = 8"
  shows "read_header (header_bytes h @ rest) = h"
proof -
  obtain s0 s1 s2 s3 where s: "signature h = [s0, s1, s2, s3]"
    using list4 [OF assms(1)] by blast
  obtain v0 v1 where v: "version h = [v0, v1]"
    using list2 [OF assms(2)] by blast
  obtain a b c d e f g k where ofs: "offset h = [a, b, c, d, e, f, g, k]"
    using list8 [OF assms(3)] by blast
  have "read_header (header_bytes h @ rest) = \<lparr>signature = signature h, version = version h, offset = offset h\<rparr>"
    by (simp add: read_header_def header_bytes_def s v ofs wr16_def wr32_def rd16_def rd32_def join16 join32)
  then show ?thesis by simp
qed

section \<open>The loops of pack\<close>

lemma length_cursors: "length (cursors cur ns) = length ns"
  by (induction ns arbitrary: cur) simp_all

lemma cursors_nth: "i < length ns \<Longrightarrow> cursors cur ns ! i = cur + of_nat (sum_list (take i ns))"
proof (induction ns arbitrary: cur i)
  case Nil
  then show ?case by simp
next
  case (Cons n ns)
  show ?case
  proof (cases i)
    case 0
    then show ?thesis by simp
  next
    case (Suc j)
    with Cons.prems have "j < length ns" by simp
    from Cons.IH [OF this, of "cur + of_nat n"] Suc show ?thesis
      by (simp add: add.assoc)
  qed
qed

lemma pack_read_Inr:
  "pack_read w ps cur offs cs = Inr (offs', cs') \<Longrightarrow>
     offs' = offs @ cursors cur (map (\<lambda>p. length (slot_bytes w p)) ps) \<and>
     cs' = cs @ map (slot_buffer w) ps \<and>
     (\<forall>p \<in> set ps. \<not> unreadable w p)"
proof (induction ps arbitrary: cur offs cs)
  case Nil
  then show ?case by simp
next
  case (Cons p ps)
  show ?case
  proof (cases "p = Some ''NULL''")
    case True
    with Cons.prems have "pack_read w ps cur (offs @ [cur]) (cs @ [None]) = Inr (offs', cs')"
      by simp
    from Cons.IH [OF this] True show ?thesis
      by (simp add: slot_bytes_def slot_buffer_def buffer_bytes_def unreadable_def)
  next
    case False
    with Cons.prems obtain buf where buf: "read_file_to_buffer w p = Some buf"
      and rest: "pack_read w ps (cur + of_nat (length buf)) (offs @ [cur]) (cs @ [Some buf]) = Inr (offs', cs')"
      by (auto split: option.splits)
    from Cons.IH [OF rest] False buf show ?thesis
      by (simp add: slot_bytes_def slot_buffer_def buffer_bytes_def unreadable_def)
  qed
qed

lemma pack_read_Inl:
  "pack_read w ps cur offs cs = Inl q \<Longrightarrow> q \<in> set ps \<and> unreadable w q"
  by (induction ps arbitrary: cur offs cs) (auto simp: unreadable_def split: if_splits option.splits)

lemma pack_read_unreadable:
  "\<exists>p \<in> set ps. unreadable w p \<Longrightarrow> \<exists>q. pack_read w ps cur offs cs = Inl q"
proof (cases "pack_read w ps cur offs cs")
  case (Inl q)
  then show ?thesis by blast
next
  case (Inr r)
  assume ex: "\<exists>p \<in> set ps. unreadable w p"
  obtain a b where "r = (a, b)" by (cases r)
  with Inr pack_read_Inr [of w ps cur offs cs a b] ex show ?thesis by blast
qed

lemma buffer_bytes_simps: "buffer_bytes None = []" "buffer_bytes (Some b) = b"
  by (simp_all add: buffer_bytes_def)

lemma room_for_mono: "room_for w p n \<Longrightarrow> m \<le> n \<Longrightarrow> room_for w p m"
  by (auto simp: room_for_def split: option.splits)

lemma transmit_static:
  "transmit w p d = (w', n) \<Longrightarrow>
     creatable w' = creatable w \<and> room w' = room w \<and> mkdir_ok w' = mkdir_ok w \<and>
     buffered w' = buffered w \<and> (\<forall>q. q \<noteq> p \<longrightarrow> files w' q = files w q) \<and>
     files w' p \<noteq> None"
  by (auto simp: transmit_def Let_def)

lemma transmit_full:
  "files w p = Some old \<Longrightarrow> room_for w p (length old + length d) \<Longrightarrow>
     transmit w p d = (w\<lparr>files := (files w)(p \<mapsto> old @ d)\<rparr>, length d)"
  by (auto simp: transmit_def Let_def room_for_def split: option.splits)

lemma fwrite_static:
  "fwrite w s d = (w', s', k) \<Longrightarrow>
     creatable w' = creatable w \<and> room w' = room w \<and> mkdir_ok w' = mkdir_ok w \<and>
     buffered w' = buffered w \<and> (\<forall>q. q \<noteq> spath s \<longrightarrow> files w' q = files w q) \<and>
     files w' (spath s) \<noteq> None \<and> spath s' = spath s"
proof -
  assume a: "fwrite w s d = (w', s', k)"
  let ?all = "pending s @ d"
  let ?keep = "min (buffered w (length (pending s)) (length d)) (length ?all)"
  let ?now = "take (length ?all - ?keep) ?all"
  obtain w1 n where t: "transmit w (spath s) ?now = (w1, n)"
    by (cases "transmit w (spath s) ?now")
  from a t have "w' = w1" and "spath s' = spath s"
    by (auto simp: fwrite_def Let_def split: if_splits)
  with transmit_static [OF t] show ?thesis by simp
qed

lemma fclose_static:
  "creatable (fclose w s) = creatable w \<and> room (fclose w s) = room w \<and>
   mkdir_ok (fclose w s) = mkdir_ok w \<and> buffered (fclose w s) = buffered w \<and>
   (\<forall>q. q \<noteq> spath s \<longrightarrow> files (fclose w s) q = files w q) \<and>
   files (fclose w s) (spath s) \<noteq> None"
  using transmit_static [of w "spath s" "pending s"]
  by (cases "transmit w (spath s) (pending s)") (simp add: fclose_def)

lemma fopen_wb_Some:
  "fopen_wb w p = Some (w1, s) \<Longrightarrow>
     creatable w p \<and> spath s = p \<and> holds w1 s [] \<and>
     creatable w1 = creatable w \<and> room w1 = room w \<and> mkdir_ok w1 = mkdir_ok w \<and>
     buffered w1 = buffered w \<and> (\<forall>q. q \<noteq> p \<longrightarrow> files w1 q = files w q)"
  by (auto simp: fopen_wb_def holds_def split: if_splits)

lemma fopen_wb_None: "fopen_wb w p = None \<longleftrightarrow> \<not> creatable w p"
  by (simp add: fopen_wb_def)

lemma fwrite_holds:
  assumes h: "holds w s bs" and r: "room_for w (spath s) (length bs + length d)"
    and f: "fwrite w s d = (w', s', k)"
  shows "k = length d \<and> holds w' s' (bs @ d)"
proof -
  let ?all = "pending s @ d"
  let ?keep = "min (buffered w (length (pending s)) (length d)) (length ?all)"
  let ?now = "take (length ?all - ?keep) ?all"
  from h obtain old where old: "files w (spath s) = Some old" "old @ pending s = bs"
    by (auto simp: holds_def)
  then have "length bs = length old + length (pending s)" by auto
  then have "length old + length ?now \<le> length bs + length d" by simp
  from room_for_mono [OF r this]
  have t: "transmit w (spath s) ?now =
      (w\<lparr>files := (files w)(spath s \<mapsto> old @ ?now)\<rparr>, length ?now)"
    by (rule transmit_full [OF old(1)])
  have "fwrite w s d =
      (w\<lparr>files := (files w)(spath s \<mapsto> old @ ?now)\<rparr>,
       s\<lparr>pending := drop (length ?all - ?keep) ?all\<rparr>, length d)"
    unfolding fwrite_def Let_def t by simp
  with f [symmetric] have "(w', s', k) =
      (w\<lparr>files := (files w)(spath s \<mapsto> old @ ?now)\<rparr>,
       s\<lparr>pending := drop (length ?all - ?keep) ?all\<rparr>, length d)"
    by (rule trans)
  then have "w' = w\<lparr>files := (files w)(spath s \<mapsto> old @ ?now)\<rparr> \<and>
      s' = s\<lparr>pending := drop (length ?all - ?keep) ?all\<rparr> \<and> k = length d"
    by (simp only: prod.inject)
  then have k: "k = length d" and w': "w' = w\<lparr>files := (files w)(spath s \<mapsto> old @ ?now)\<rparr>"
    and s': "s' = s\<lparr>pending := drop (length ?all - ?keep) ?all\<rparr>"
    by blast+
  have cat: "?now @ drop (length ?all - ?keep) ?all = ?all" by (rule append_take_drop_id)
  have a: "files w' (spath s') = Some (old @ ?now)" unfolding w' s' by simp
  have b: "pending s' = drop (length ?all - ?keep) ?all" unfolding s' by simp
  have "(old @ ?now) @ pending s' = bs @ d"
    unfolding b using cat old(2) by (metis append.assoc)
  with a have "holds w' s' (bs @ d)" unfolding holds_def by blast
  with k show ?thesis by simp
qed

lemma fclose_holds:
  assumes "holds w s bs" and "room_for w (spath s) (length bs)"
  shows "files (fclose w s) (spath s) = Some bs"
proof -
  from assms(1) obtain old where old: "files w (spath s) = Some old" "old @ pending s = bs"
    by (auto simp: holds_def)
  with assms(2) have "room_for w (spath s) (length old + length (pending s))"
    by (metis length_append)
  from transmit_full [OF old(1) this] old(2) show ?thesis
    by (simp add: fclose_def)
qed

lemma pack_write_static:
  "pack_write w s cs = (w', s', ok) \<Longrightarrow>
     creatable w' = creatable w \<and> room w' = room w \<and> mkdir_ok w' = mkdir_ok w \<and>
     buffered w' = buffered w \<and> (\<forall>q. q \<noteq> spath s \<longrightarrow> files w' q = files w q) \<and>
     spath s' = spath s"
proof (induction cs arbitrary: w s)
  case Nil
  then show ?case by simp
next
  case (Cons c cs)
  show ?case
  proof (cases "buffer_bytes c = []")
    case True
    with Cons.prems have "pack_write w s cs = (w', s', ok)"
      by (auto simp: buffer_bytes_def split: option.splits)
    from Cons.IH [OF this] show ?thesis .
  next
    case False
    then obtain buf where c: "c = Some buf" and ne: "buf \<noteq> []"
      by (auto simp: buffer_bytes_def split: option.splits)
    obtain w1 s1 k where fw: "fwrite w s buf = (w1, s1, k)" by (cases "fwrite w s buf")
    note st = fwrite_static [OF fw]
    show ?thesis
    proof (cases "k = length buf")
      case True
      with Cons.prems c ne fw have "pack_write w1 s1 cs = (w', s', ok)" by simp
      from Cons.IH [OF this] st show ?thesis by simp
    next
      case False
      with Cons.prems c ne fw have "w' = w1" "s' = s1" by simp_all
      with st show ?thesis by simp
    qed
  qed
qed

lemma pack_write_holds:
  assumes "holds w s bs"
    and "room_for w (spath s) (length bs + length (concat (map buffer_bytes cs)))"
    and "pack_write w s cs = (w', s', ok)"
  shows "ok \<and> holds w' s' (bs @ concat (map buffer_bytes cs))"
  using assms
proof (induction cs arbitrary: w s bs)
  case Nil
  then show ?case by simp
next
  case (Cons c cs)
  show ?case
  proof (cases "buffer_bytes c = []")
    case True
    with Cons.prems have "pack_write w s cs = (w', s', ok)"
      by (auto simp: buffer_bytes_def split: option.splits)
    from Cons.IH [OF Cons.prems(1) _ this] Cons.prems(2) True show ?thesis by simp
  next
    case False
    then obtain buf where c: "c = Some buf" and ne: "buf \<noteq> []"
      by (auto simp: buffer_bytes_def split: option.splits)
    obtain w1 s1 k where fw: "fwrite w s buf = (w1, s1, k)" by (cases "fwrite w s buf")
    from Cons.prems(2) c have r: "room_for w (spath s) (length bs + length buf)"
      by (auto simp: buffer_bytes_simps intro: room_for_mono)
    from fwrite_holds [OF Cons.prems(1) r fw]
    have k: "k = length buf" and h1: "holds w1 s1 (bs @ buf)" by simp_all
    from fwrite_static [OF fw] Cons.prems(2) c
    have r1: "room_for w1 (spath s1)
        (length (bs @ buf) + length (concat (map buffer_bytes cs)))"
      by (simp add: room_for_def buffer_bytes_simps add.assoc)
    from Cons.prems(3) c ne fw k have "pack_write w1 s1 cs = (w', s', ok)" by simp
    from Cons.IH [OF h1 r1 this] c show ?thesis by (simp add: buffer_bytes_simps)
  qed
qed

lemma length_pack_header_bytes: "length ins = 8 \<Longrightarrow> length (header_bytes (pack_header w ins)) = 40"
  by (simp add: length_header_bytes pack_header_def length_cursors)

lemma pack_pbp_failure:
  assumes "\<exists>p \<in> set ins. unreadable (fs st) p"
  shows "\<exists>q. q \<in> set ins \<and> unreadable (fs st) q \<and> pack_pbp st outp ins = die st [Failed_read_input q]"
proof -
  from pack_read_unreadable [OF assms] obtain q
    where q: "pack_read (fs st) ins (of_nat sizeof_PBPHeader) [] [] = Inl q" by blast
  from pack_read_Inl [OF q] q show ?thesis
    by (auto simp: pack_pbp_def)
qed

lemma pack_pbp_static:
  "creatable (fs (pack_pbp st outp ins)) = creatable (fs st) \<and>
   room (fs (pack_pbp st outp ins)) = room (fs st) \<and>
   mkdir_ok (fs (pack_pbp st outp ins)) = mkdir_ok (fs st) \<and>
   buffered (fs (pack_pbp st outp ins)) = buffered (fs st)"
proof (cases "pack_read (fs st) ins (of_nat sizeof_PBPHeader) [] []")
  case (Inl q)
  then show ?thesis by (simp add: pack_pbp_def die_def)
next
  case (Inr r)
  obtain offs cs where r: "r = (offs, cs)" by (cases r)
  let ?h = "\<lparr>signature = [0x00, 0x50, 0x42, 0x50], version = [0, 1], offset = offs\<rparr>"
  show ?thesis
  proof (cases "fopen_wb (fs st) outp")
    case None
    with Inr r show ?thesis by (simp add: pack_pbp_def die_def)
  next
    case (Some a)
    obtain w1 s1 where a: "a = (w1, s1)" by (cases a)
    obtain w2 s2 k where fw: "fwrite w1 s1 (header_bytes ?h) = (w2, s2, k)"
      by (cases "fwrite w1 s1 (header_bytes ?h)")
    obtain w3 s3 ok where pw: "pack_write w2 s2 cs = (w3, s3, ok)"
      by (cases "pack_write w2 s2 cs")
    note f = fopen_wb_Some [OF Some [unfolded a]] fwrite_static [OF fw] pack_write_static [OF pw]
      fclose_static [of w2 s2] fclose_static [of w3 s3]
    from Inr r Some a fw pw f show ?thesis
      by (simp add: pack_pbp_def print_error_and_exit_def die_def)
  qed
qed

lemma pack_pbp_exit_None:
  assumes "exited (pack_pbp st outp ins) = None"
  shows "(\<forall>p \<in> set ins. \<not> unreadable (fs st) p) \<and> creatable (fs st) outp"
proof -
  let ?w = "fs st"
  obtain offs cs where rd: "pack_read ?w ins (of_nat sizeof_PBPHeader) [] [] = Inr (offs, cs)"
    using assms by (cases "pack_read ?w ins (of_nat sizeof_PBPHeader) [] []")
      (auto simp: pack_pbp_def die_def)
  have "creatable ?w outp"
  proof (rule ccontr)
    assume "\<not> creatable ?w outp"
    then have "fopen_wb ?w outp = None" by (simp add: fopen_wb_def)
    with assms rd show False by (simp add: pack_pbp_def die_def)
  qed
  with pack_read_Inr [OF rd] show ?thesis by simp
qed

lemma pack_pbp_written:
  assumes len: "length ins = 8"
    and readable: "\<forall>p \<in> set ins. \<not> unreadable (fs st) p"
    and cr: "creatable (fs st) outp"
    and room: "room_for (fs st) outp
      (40 + sum_list (map (\<lambda>p. length (slot_bytes (fs st) p)) ins))"
  shows "files (fs (pack_pbp st outp ins)) =
           (files (fs st))(outp \<mapsto> header_bytes (pack_header (fs st) ins) @ concat (map (slot_bytes (fs st)) ins))"
    and "exited (pack_pbp st outp ins) = exited st"
    and "out (pack_pbp st outp ins) = out st"
    and "err (pack_pbp st outp ins) = err st"
proof -
  let ?w = "fs st"
  let ?data = "concat (map (slot_bytes ?w) ins)"
  obtain offs cs where rd: "pack_read ?w ins (of_nat sizeof_PBPHeader) [] [] = Inr (offs, cs)"
    using readable pack_read_Inl [of ?w ins "of_nat sizeof_PBPHeader" "[]" "[]"]
    by (cases "pack_read ?w ins (of_nat sizeof_PBPHeader) [] []") auto
  from pack_read_Inr [OF rd]
  have offs: "offs = cursors 40 (map (\<lambda>p. length (slot_bytes ?w p)) ins)"
    and cs: "cs = map (slot_buffer ?w) ins"
    by (simp_all add: sizeof_PBPHeader_def)
  let ?h = "\<lparr>signature = [0x00, 0x50, 0x42, 0x50], version = [0, 1], offset = offs\<rparr>"
  have h: "?h = pack_header ?w ins" by (simp add: pack_header_def offs)
  have lh: "length (header_bytes ?h) = 40"
    unfolding h by (rule length_pack_header_bytes [OF len])
  have data: "concat (map buffer_bytes cs) = ?data"
    by (simp add: cs slot_bytes_def [abs_def] comp_def)
  have ld: "length ?data = sum_list (map (\<lambda>p. length (slot_bytes ?w p)) ins)"
    by (simp add: length_concat comp_def)
  obtain w1 s1 where fo: "fopen_wb ?w outp = Some (w1, s1)"
    using cr by (simp add: fopen_wb_def)
  note o = fopen_wb_Some [OF fo]
  then have p1: "spath s1 = outp" and h1: "holds w1 s1 []" and ro1: "room w1 = room ?w" by simp_all
  obtain w2 s2 k where fw: "fwrite w1 s1 (header_bytes ?h) = (w2, s2, k)"
    by (cases "fwrite w1 s1 (header_bytes ?h)")
  have r1: "room_for w1 (spath s1) (length ([] :: byte list) + length (header_bytes ?h))"
    using room ro1 p1 lh by (auto simp: room_for_def split: option.splits)
  from fwrite_holds [OF h1 r1 fw] lh
  have k: "k = 40" and h2: "holds w2 s2 (header_bytes ?h)" by simp_all
  note f2 = fwrite_static [OF fw]
  obtain w3 s3 ok where pw: "pack_write w2 s2 cs = (w3, s3, ok)"
    by (cases "pack_write w2 s2 cs")
  have r2: "room_for w2 (spath s2) (length (header_bytes ?h) + length (concat (map buffer_bytes cs)))"
    using room ro1 p1 f2 lh ld data by (simp add: room_for_def)
  from pack_write_holds [OF h2 r2 pw]
  have ok: ok and h3: "holds w3 s3 (header_bytes ?h @ ?data)" by (simp_all add: data)
  note f3 = pack_write_static [OF pw]
  have r3: "room_for w3 (spath s3) (length (header_bytes ?h @ ?data))"
    using room ro1 p1 f2 f3 lh ld by (simp add: room_for_def)
  have fin: "files (fclose w3 s3) (spath s3) = Some (header_bytes ?h @ ?data)"
    by (rule fclose_holds [OF h3 r3])
  have p3: "spath s3 = outp" using f3 f2 p1 by simp
  have other: "files (fclose w3 s3) q = files ?w q" if "q \<noteq> outp" for q
    using that fclose_static [of w3 s3] f3 f2 o p1 p3 by simp
  have r: "pack_pbp st outp ins = st\<lparr>fs := fclose w3 s3\<rparr>"
    using rd fo fw k pw ok by (simp add: pack_pbp_def sizeof_PBPHeader_def)
  have "files (fclose w3 s3) = (files ?w)(outp \<mapsto> header_bytes ?h @ ?data)"
  proof
    fix q show "files (fclose w3 s3) q = ((files ?w)(outp \<mapsto> header_bytes ?h @ ?data)) q"
      using fin other p3 by (cases "q = outp") simp_all
  qed
  then show "files (fs (pack_pbp st outp ins)) =
           (files (fs st))(outp \<mapsto> header_bytes (pack_header (fs st) ins) @ concat (map (slot_bytes (fs st)) ins))"
    using r h by simp
  show "exited (pack_pbp st outp ins) = exited st" using r by simp
  show "out (pack_pbp st outp ins) = out st" using r by simp
  show "err (pack_pbp st outp ins) = err st" using r by simp
qed

lemma pack_pbp_success:
  assumes len: "length ins = 8" and ok: "exited (pack_pbp st outp ins) = None"
    and room: "room_for (fs st) outp
      (40 + sum_list (map (\<lambda>p. length (slot_bytes (fs st) p)) ins))"
  shows "files (fs (pack_pbp st outp ins)) =
           (files (fs st))(outp \<mapsto> header_bytes (pack_header (fs st) ins) @ concat (map (slot_bytes (fs st)) ins))"
    and "\<forall>p \<in> set ins. \<not> unreadable (fs st) p"
    and "out (pack_pbp st outp ins) = out st"
    and "err (pack_pbp st outp ins) = err st"
    and "creatable (fs st) outp"
proof -
  from pack_pbp_exit_None [OF ok]
  have a: "\<forall>p \<in> set ins. \<not> unreadable (fs st) p" and b: "creatable (fs st) outp" by simp_all
  note w = pack_pbp_written [OF len a b room]
  show "files (fs (pack_pbp st outp ins)) =
           (files (fs st))(outp \<mapsto> header_bytes (pack_header (fs st) ins) @ concat (map (slot_bytes (fs st)) ins))"
    by (rule w(1))
  show "\<forall>p \<in> set ins. \<not> unreadable (fs st) p" by (rule a)
  show "out (pack_pbp st outp ins) = out st" by (rule w(3))
  show "err (pack_pbp st outp ins) = err st" by (rule w(4))
  show "creatable (fs st) outp" by (rule b)
qed

lemma room_for_unlimited: "room w p = None \<Longrightarrow> room_for w p n"
  by (simp add: room_for_def)

lemma pack_pbp_succeeds:
  assumes len: "length ins = 8" and st: "exited st = None"
    and readable: "\<forall>p \<in> set ins. \<not> unreadable (fs st) p"
    and cr: "creatable (fs st) outp" and room: "room (fs st) outp = None"
  shows "exited (pack_pbp st outp ins) = None"
  using pack_pbp_written(2) [OF len readable cr room_for_unlimited [OF room]] st by simp

section \<open>The cursor of pack\<close>

lemma upt8: "[0..<8] = [0, 1, 2, 3, 4, 5, 6, 7]"
  by (simp add: upt_rec)

lemma slot_bytes_NULL: "slot_bytes w (Some ''NULL'') = []"
  by (simp add: slot_bytes_def slot_buffer_def buffer_bytes_def)

lemma cursors_Suc:
  "Suc j < length ns \<Longrightarrow> cursors cur ns ! Suc j = cursors cur ns ! j + of_nat (ns ! j)"
  by (simp add: cursors_nth take_Suc_conv_app_nth add.assoc)

lemma cursors_skip:
  assumes "i \<le> j" and "j < length ns" and "\<forall>k. i \<le> k \<and> k < j \<longrightarrow> ns ! k = 0"
  shows "cursors cur ns ! i = cursors cur ns ! j"
  using assms
proof (induction j)
  case 0
  then show ?case by simp
next
  case (Suc j)
  show ?case
  proof (cases "i = Suc j")
    case True
    then show ?thesis by simp
  next
    case False
    with Suc.prems have ij: "i \<le> j" and jl: "j < length ns" and z: "ns ! j = 0" by auto
    from Suc.prems have "\<forall>k. i \<le> k \<and> k < j \<longrightarrow> ns ! k = 0" by auto
    from Suc.IH [OF ij jl this] cursors_Suc [OF Suc.prems(2), of cur] z show ?thesis by simp
  qed
qed

lemma sum_list_take_le: "i \<le> j \<Longrightarrow> sum_list (take i (ns :: nat list)) \<le> sum_list (take j ns)"
proof -
  assume "i \<le> j"
  then have "take j ns = take i ns @ take (j - i) (drop i ns)"
    by (metis le_add_diff_inverse take_add)
  then show ?thesis by simp
qed

lemma unat_cursor: "40 + s < 2 ^ 32 \<Longrightarrow> unat (40 + of_nat s :: u32) = 40 + s"
proof -
  assume b: "40 + s < 2 ^ 32"
  have "(40 + of_nat s :: u32) = of_nat (40 + s)" by simp
  then have "unat (40 + of_nat s :: u32) = (40 + s) mod 2 ^ 32"
    by (simp only: unat_of_nat) simp
  with b show ?thesis by simp
qed

lemma cursors_mono:
  assumes "i \<le> j" and "j < length ns" and "40 + sum_list (take j ns) < 2 ^ 32"
  shows "cursors 40 ns ! i \<le> cursors 40 ns ! j"
proof -
  have le: "sum_list (take i ns) \<le> sum_list (take j ns)" by (rule sum_list_take_le [OF assms(1)])
  with assms(3) have "40 + sum_list (take i ns) < 2 ^ 32" by simp
  with assms le show ?thesis
    by (simp add: cursors_nth word_le_nat_alt unat_cursor)
qed

lemma length_big_file: "length big_file = 4294967256"
  by (simp add: big_file_def)

lemma written_header:
  assumes "length ins = 8" and "exited (pack_pbp st outp ins) = None"
    and "room_for (fs st) outp (40 + sum_list (map (\<lambda>p. length (slot_bytes (fs st) p)) ins))"
  shows "read_header (take sizeof_PBPHeader (the (files (fs (pack_pbp st outp ins)) outp))) =
           pack_header (fs st) ins"
proof -
  have l: "length (header_bytes (pack_header (fs st) ins)) = 40"
    by (rule length_pack_header_bytes [OF assms(1)])
  have "read_header (header_bytes (pack_header (fs st) ins) @ []) = pack_header (fs st) ins"
    by (rule read_header_bytes) (simp_all add: pack_header_def length_cursors assms(1))
  with l show ?thesis
    by (simp add: pack_pbp_success(1) [OF assms] sizeof_PBPHeader_def)
qed

text \<open>When all the bytes fit into the buffer, only \<^verbatim>\<open>fclose\<close> sends them.\<close>

lemma fwrite_buffered:
  assumes "files w (spath s) = Some old" and "buffered w = block_buffer"
    and "length (pending s) + length d \<le> 4096"
  shows "fwrite w s d = (w, s\<lparr>pending := pending s @ d\<rparr>, length d)"
proof -
  have "(files w)(spath s \<mapsto> old) = files w" using assms(1) by (simp add: fun_upd_idem)
  then have "transmit w (spath s) [] = (w, 0)"
    using assms(1) by (simp add: transmit_def Let_def split: option.splits)
  with assms(2,3) show ?thesis
    by (simp add: fwrite_def Let_def block_buffer_def)
qed

lemma pack_write_buffered:
  assumes "files w (spath s) = Some old" and "buffered w = block_buffer"
    and "length (pending s) + length (concat (map buffer_bytes cs)) \<le> 4096"
  shows "pack_write w s cs = (w, s\<lparr>pending := pending s @ concat (map buffer_bytes cs)\<rparr>, True)"
  using assms
proof (induction cs arbitrary: s)
  case Nil
  then show ?case by simp
next
  case (Cons c cs)
  show ?case
  proof (cases "buffer_bytes c = []")
    case True
    then have "pack_write w s (c # cs) = pack_write w s cs"
      by (auto simp: buffer_bytes_def split: option.splits)
    with Cons True show ?thesis by simp
  next
    case False
    then obtain buf where c: "c = Some buf" and ne: "buf \<noteq> []"
      by (auto simp: buffer_bytes_def split: option.splits)
    from Cons.prems c have l: "length (pending s) + length buf \<le> 4096"
      by (simp add: buffer_bytes_simps)
    let ?s = "s\<lparr>pending := pending s @ buf\<rparr>"
    have fw: "fwrite w s buf = (w, ?s, length buf)"
      by (rule fwrite_buffered [OF Cons.prems(1,2) l])
    have "pack_write w ?s cs = (w, ?s\<lparr>pending := pending ?s @ concat (map buffer_bytes cs)\<rparr>, True)"
      using Cons.prems c by (intro Cons.IH) (simp_all add: buffer_bytes_simps)
    with fw c ne show ?thesis by (simp add: buffer_bytes_simps)
  qed
qed

lemma pack_pbp_buffered:
  assumes len: "length ins = 8"
    and readable: "\<forall>p \<in> set ins. \<not> unreadable (fs st) p"
    and cr: "creatable (fs st) outp"
    and buf: "buffered (fs st) = block_buffer"
    and small: "40 + length (concat (map (slot_bytes (fs st)) ins)) \<le> 4096"
    and room: "room (fs st) outp = Some r"
  shows "exited (pack_pbp st outp ins) = exited st"
    and "files (fs (pack_pbp st outp ins)) outp =
           Some (take r (header_bytes (pack_header (fs st) ins) @ concat (map (slot_bytes (fs st)) ins)))"
proof -
  let ?w = "fs st"
  let ?data = "concat (map (slot_bytes ?w) ins)"
  obtain offs cs where rd: "pack_read ?w ins (of_nat sizeof_PBPHeader) [] [] = Inr (offs, cs)"
    using readable pack_read_Inl [of ?w ins "of_nat sizeof_PBPHeader" "[]" "[]"]
    by (cases "pack_read ?w ins (of_nat sizeof_PBPHeader) [] []") auto
  from pack_read_Inr [OF rd]
  have offs: "offs = cursors 40 (map (\<lambda>p. length (slot_bytes ?w p)) ins)"
    and cs: "cs = map (slot_buffer ?w) ins"
    by (simp_all add: sizeof_PBPHeader_def)
  let ?h = "\<lparr>signature = [0x00, 0x50, 0x42, 0x50], version = [0, 1], offset = offs\<rparr>"
  have h: "?h = pack_header ?w ins" by (simp add: pack_header_def offs)
  have lh: "length (header_bytes ?h) = 40"
    unfolding h by (rule length_pack_header_bytes [OF len])
  have data: "concat (map buffer_bytes cs) = ?data"
    by (simp add: cs slot_bytes_def [abs_def] comp_def)
  let ?w1 = "?w\<lparr>files := (files ?w)(outp \<mapsto> [])\<rparr>"
  let ?s1 = "\<lparr>spath = outp, pending = []\<rparr>"
  let ?s2 = "\<lparr>spath = outp, pending = header_bytes ?h\<rparr>"
  let ?s3 = "\<lparr>spath = outp, pending = header_bytes ?h @ ?data\<rparr>"
  have fo: "fopen_wb ?w outp = Some (?w1, ?s1)" using cr by (simp add: fopen_wb_def)
  have fw: "fwrite ?w1 ?s1 (header_bytes ?h) = (?w1, ?s2, 40)"
    using fwrite_buffered [of ?w1 ?s1 "[]" "header_bytes ?h"] buf lh by simp
  have pw: "pack_write ?w1 ?s2 cs = (?w1, ?s3, True)"
    using pack_write_buffered [of ?w1 ?s2 "[]" cs] buf lh small data by simp
  have r: "pack_pbp st outp ins = st\<lparr>fs := fclose ?w1 ?s3\<rparr>"
    using rd fo fw pw by (simp add: pack_pbp_def sizeof_PBPHeader_def)
  show "exited (pack_pbp st outp ins) = exited st" using r by simp
  have "files (fclose ?w1 ?s3) outp = Some (take r (header_bytes ?h @ ?data))"
    using room by (simp add: fclose_def transmit_def Let_def min_def)
  then show "files (fs (pack_pbp st outp ins)) outp =
           Some (take r (header_bytes (pack_header (fs st) ins) @ concat (map (slot_bytes (fs st)) ins)))"
    using r h by simp
qed

lemma demo_pack_ok: "exited (pack_pbp (start demo_world) ''out.bin'' sfo_and_psar) = None"
  by (rule pack_pbp_succeeds)
    (simp_all add: sfo_and_psar_def start_def demo_world_def unreadable_def read_file_to_buffer_def)

lemma demo_slot_bytes:
  "slot_bytes demo_world (Some ''a.sfo'') = [1]" "slot_bytes demo_world (Some ''data.bin'') = [2]"
  by (simp_all add: slot_bytes_def slot_buffer_def buffer_bytes_def read_file_to_buffer_def
      demo_world_def)

lemma demo_room: "room_for (fs (start demo_world)) p n"
  by (simp add: room_for_def start_def demo_world_def)

lemma full_disk_slot_bytes:
  "slot_bytes full_disk_world (Some ''a.sfo'') = [1]"
  "slot_bytes full_disk_world (Some ''data.bin'') = [2]"
  by (simp_all add: slot_bytes_def slot_buffer_def buffer_bytes_def read_file_to_buffer_def
      full_disk_world_def)

lemma full_disk_pack:
  "exited (pack_pbp (start full_disk_world) ''out.bin'' sfo_and_psar) = None"
  "files (fs (pack_pbp (start full_disk_world) ''out.bin'' sfo_and_psar)) ''out.bin'' =
     Some (take 10 (header_bytes (pack_header full_disk_world sfo_and_psar) @ [1, 2]))"
proof -
  have l: "length sfo_and_psar = 8" by (simp add: sfo_and_psar_def)
  have d: "concat (map (slot_bytes (fs (start full_disk_world))) sfo_and_psar) = [1, 2]"
    by (simp add: sfo_and_psar_def start_def full_disk_slot_bytes slot_bytes_NULL)
  have r: "\<forall>p \<in> set sfo_and_psar. \<not> unreadable (fs (start full_disk_world)) p"
    by (simp add: sfo_and_psar_def start_def unreadable_def read_file_to_buffer_def
        full_disk_world_def)
  note b = pack_pbp_buffered [OF l r, of "''out.bin''" 10]
  have c: "creatable (fs (start full_disk_world)) ''out.bin''"
    "buffered (fs (start full_disk_world)) = block_buffer"
    "room (fs (start full_disk_world)) ''out.bin'' = Some 10"
    by (simp_all add: start_def full_disk_world_def)
  have s: "40 + length (concat (map (slot_bytes (fs (start full_disk_world))) sfo_and_psar)) \<le> 4096"
    by (simp add: d)
  from b(1) [OF c(1,2) s c(3)]
  show "exited (pack_pbp (start full_disk_world) ''out.bin'' sfo_and_psar) = None"
    by (simp add: start_def)
  from b(2) [OF c(1,2) s c(3)]
  show "files (fs (pack_pbp (start full_disk_world) ''out.bin'' sfo_and_psar)) ''out.bin'' =
     Some (take 10 (header_bytes (pack_header full_disk_world sfo_and_psar) @ [1, 2]))"
    by (simp add: d) (simp add: start_def)
qed

lemma full_disk_all_null:
  "exited (pack_pbp (start full_disk_world) ''empty.pbp'' (replicate 8 (Some ''NULL''))) = None"
  "files (fs (pack_pbp (start full_disk_world) ''empty.pbp'' (replicate 8 (Some ''NULL''))))
     ''empty.pbp'' =
     Some (take 10 (header_bytes (pack_header full_disk_world (replicate 8 (Some ''NULL'')))))"
proof -
  let ?ins = "replicate 8 (Some ''NULL'')"
  have l: "length ?ins = 8" by simp
  have d: "concat (map (slot_bytes (fs (start full_disk_world))) ?ins) = []"
    by (simp add: slot_bytes_NULL)
  have r: "\<forall>p \<in> set ?ins. \<not> unreadable (fs (start full_disk_world)) p"
    by (simp add: unreadable_def)
  note b = pack_pbp_buffered [OF l r, of "''empty.pbp''" 10]
  have c: "creatable (fs (start full_disk_world)) ''empty.pbp''"
    "buffered (fs (start full_disk_world)) = block_buffer"
    "room (fs (start full_disk_world)) ''empty.pbp'' = Some 10"
    by (simp_all add: start_def full_disk_world_def)
  have s: "40 + length (concat (map (slot_bytes (fs (start full_disk_world))) ?ins)) \<le> 4096"
    by (simp only: d) simp
  from b(1) [OF c(1,2) s c(3)]
  show "exited (pack_pbp (start full_disk_world) ''empty.pbp'' ?ins) = None"
    by (simp add: start_def)
  from b(2) [OF c(1,2) s c(3)]
  show "files (fs (pack_pbp (start full_disk_world) ''empty.pbp'' ?ins)) ''empty.pbp'' =
     Some (take 10 (header_bytes (pack_header full_disk_world ?ins)))"
    by (simp only: d append_Nil2) (simp add: start_def)
qed

lemma analyze_short_file:
  "files w p = Some c \<Longrightarrow> length c < 40 \<Longrightarrow> exited (analyze_file (start w) p) = Some 1"
  by (simp add: analyze_file_def start_def sizeof_PBPHeader_def print_error_and_exit_def die_def)

section \<open>Claims about pack\<close>

text \<open>
  \<^bold>\<open>C5\<close>. When some source path other than the sentinel \<^verbatim>\<open>NULL\<close> cannot be read, \<^verbatim>\<open>pack_pbp\<close>
  calls \<^verbatim>\<open>exit(1)\<close> with the file system exactly as it found it: the destination is not
  created, no byte is written, nothing buffered is emitted, and the only output is the
  diagnostic that names an input path.
\<close>

theorem pack_input_failure_atomic:
  assumes "\<exists>p \<in> set ins. p \<noteq> Some ''NULL'' \<and> read_file_to_buffer (fs st) p = None"
  shows "exited (pack_pbp st outp ins) = Some 1 \<and> fs (pack_pbp st outp ins) = fs st \<and>
         out (pack_pbp st outp ins) = out st \<and>
         (\<exists>q \<in> set ins. err (pack_pbp st outp ins) = err st @ [Failed_read_input q])"
proof -
  from assms have "\<exists>p \<in> set ins. unreadable (fs st) p" by (simp add: unreadable_def)
  from pack_pbp_failure [OF this, of outp] show ?thesis
    by (auto simp: die_def)
qed

theorem pack_input_failure_atomic_witness:
  "(\<exists>p \<in> set [Some ''a.sfo'', Some ''gone.png'', Some ''NULL'', Some ''NULL'', Some ''NULL'',
        Some ''NULL'', Some ''NULL'', Some ''data.bin''].
      p \<noteq> Some ''NULL'' \<and> read_file_to_buffer (fs (start demo_world)) p = None) \<and>
   exited (pack_pbp (start demo_world) ''out.bin''
     [Some ''a.sfo'', Some ''gone.png'', Some ''NULL'', Some ''NULL'', Some ''NULL'',
      Some ''NULL'', Some ''NULL'', Some ''data.bin'']) = Some 1 \<and>
   files (fs (pack_pbp (start demo_world) ''out.bin''
     [Some ''a.sfo'', Some ''gone.png'', Some ''NULL'', Some ''NULL'', Some ''NULL'',
      Some ''NULL'', Some ''NULL'', Some ''data.bin''])) ''out.bin'' = None"
proof -
  have h: "\<exists>p \<in> set [Some ''a.sfo'', Some ''gone.png'', Some ''NULL'', Some ''NULL'', Some ''NULL'',
        Some ''NULL'', Some ''NULL'', Some ''data.bin''].
      p \<noteq> Some ''NULL'' \<and> read_file_to_buffer (fs (start demo_world)) p = None"
    by (simp add: read_file_to_buffer_def start_def demo_world_def)
  from pack_input_failure_atomic [OF h, of "''out.bin''"] h show ?thesis
    by (simp add: start_def demo_world_def)
qed

text \<open>
  \<^bold>\<open>C10\<close>. (as amended) After a successful \<^verbatim>\<open>pack_pbp\<close> on 8 source slots whose destination
  file can take all the bytes, the destination file is the 40 header bytes followed by the
  bytes of the slots in slot order, nothing between them; a \<^verbatim>\<open>NULL\<close> slot gives no bytes,
  any other slot the content of its file. So the file has 40 bytes plus the sum of the
  lengths of the sources other than \<^verbatim>\<open>NULL\<close>.
\<close>

theorem pack_output_layout:
  assumes "length ins = 8" and "exited (pack_pbp st outp ins) = None"
    and "room_for (fs st) outp (40 + sum_list (map (\<lambda>p. length (slot_bytes (fs st) p)) ins))"
  shows "files (fs (pack_pbp st outp ins)) outp =
           Some (header_bytes (pack_header (fs st) ins) @ concat (map (slot_bytes (fs st)) ins)) \<and>
         length (header_bytes (pack_header (fs st) ins)) = 40 \<and>
         length (header_bytes (pack_header (fs st) ins) @ concat (map (slot_bytes (fs st)) ins)) =
           40 + sum_list (map (\<lambda>p. length (slot_bytes (fs st) p)) ins) \<and>
         (\<forall>p \<in> set ins. slot_bytes (fs st) p =
            (if p = Some ''NULL'' then [] else the (read_file_to_buffer (fs st) p)) \<and>
            (p \<noteq> Some ''NULL'' \<longrightarrow> read_file_to_buffer (fs st) p \<noteq> None))"
proof -
  note s = pack_pbp_success [OF assms]
  have "\<forall>p \<in> set ins. p \<noteq> Some ''NULL'' \<longrightarrow> read_file_to_buffer (fs st) p \<noteq> None"
    using s(2) by (auto simp: unreadable_def)
  moreover have "length (concat (map (slot_bytes (fs st)) ins)) =
      sum_list (map (\<lambda>p. length (slot_bytes (fs st) p)) ins)"
    by (simp add: length_concat comp_def)
  ultimately show ?thesis
    using s(1) length_pack_header_bytes [OF assms(1), of "fs st"]
    by (auto simp: slot_bytes_def slot_buffer_def buffer_bytes_def)
qed

theorem pack_output_layout_witness:
  "length sfo_and_psar = 8 \<and>
   exited (pack_pbp (start demo_world) ''out.bin'' sfo_and_psar) = None \<and>
   room_for (fs (start demo_world)) ''out.bin''
     (40 + sum_list (map (\<lambda>p. length (slot_bytes (fs (start demo_world)) p)) sfo_and_psar)) \<and>
   files (fs (pack_pbp (start demo_world) ''out.bin'' sfo_and_psar)) ''out.bin'' =
     Some (header_bytes (pack_header demo_world sfo_and_psar) @ [1, 2]) \<and>
   length (header_bytes (pack_header demo_world sfo_and_psar) @ [1, 2]) = 42"
proof -
  have h1: "length sfo_and_psar = 8" by (simp add: sfo_and_psar_def)
  have s: "concat (map (slot_bytes demo_world) sfo_and_psar) = [1, 2]"
    by (simp add: sfo_and_psar_def demo_slot_bytes slot_bytes_NULL)
  have f: "fs (start demo_world) = demo_world" by (simp add: start_def)
  have h3: "room_for (fs (start demo_world)) ''out.bin''
     (40 + sum_list (map (\<lambda>p. length (slot_bytes (fs (start demo_world)) p)) sfo_and_psar))"
    by (rule demo_room)
  from pack_output_layout [OF h1 demo_pack_ok h3] h1 demo_pack_ok h3 show ?thesis
    by (simp add: f s)
qed

text \<open>
  \<^bold>\<open>C10\<close>. The claim as stated fails where the file system takes only 10 bytes: the 42 bytes
  of the header and the two sources stay in the buffer of the stream, every \<^verbatim>\<open>fwrite\<close>
  returns the full count, \<^verbatim>\<open>fclose\<close> sends what the file has room for and its result
  is not looked at. The pack returns normally and the destination holds 10 bytes.
\<close>

theorem pack_short_file_counterexample:
  "length sfo_and_psar = 8 \<and>
   exited (pack_pbp (start full_disk_world) ''out.bin'' sfo_and_psar) = None \<and>
   length (the (files (fs (pack_pbp (start full_disk_world) ''out.bin'' sfo_and_psar))
     ''out.bin'')) = 10 \<and>
   40 + sum_list (map (\<lambda>p. length (slot_bytes (fs (start full_disk_world)) p)) sfo_and_psar) = 42"
proof -
  have l: "length sfo_and_psar = 8" by (simp add: sfo_and_psar_def)
  have t: "40 + sum_list (map (\<lambda>p. length (slot_bytes (fs (start full_disk_world)) p)) sfo_and_psar) = 42"
    by (simp add: sfo_and_psar_def start_def full_disk_slot_bytes slot_bytes_NULL)
  note p = full_disk_pack
  from l t p show ?thesis
    by (simp add: length_pack_header_bytes)
qed

text \<open>
  \<^bold>\<open>C8\<close>. (as amended) When the destination file can be created and can take 40 bytes,
  \<^verbatim>\<open>pack_pbp\<close> with all 8 slots \<^verbatim>\<open>NULL\<close> returns normally and leaves a destination file of
  exactly 40 bytes, the header alone with every offset 40, and \<^verbatim>\<open>analyze_file\<close> on that
  file prints \<^verbatim>\<open>NULL\<close> for each of the 8 segments.
\<close>

theorem pack_all_null_header_only:
  assumes "creatable (fs st) outp" and "room_for (fs st) outp 40"
  shows "exited (pack_pbp st outp (replicate 8 (Some ''NULL''))) = exited st \<and>
         files (fs (pack_pbp st outp (replicate 8 (Some ''NULL'')))) outp =
           Some (header_bytes \<lparr>signature = [0x00, 0x50, 0x42, 0x50], version = [0, 1],
                   offset = [40, 40, 40, 40, 40, 40, 40, 40]\<rparr>) \<and>
         length (the (files (fs (pack_pbp st outp (replicate 8 (Some ''NULL'')))) outp)) = 40 \<and>
         exited (analyze_file (start (fs (pack_pbp st outp (replicate 8 (Some ''NULL''))))) outp)
           = None \<and>
         out (analyze_file (start (fs (pack_pbp st outp (replicate 8 (Some ''NULL''))))) outp) =
           [Header_banner, Signature_line [0x00, 0x50, 0x42, 0x50], Version_line 1 0,
            Offsets_banner] @ map (\<lambda>n. Offset_line n None) default_file_names"
proof -
  let ?ins = "replicate 8 (Some ''NULL'')"
  let ?h = "\<lparr>signature = [0x00, 0x50, 0x42, 0x50], version = [0, 1],
             offset = [40, 40, 40, 40, 40, 40, 40, 40 :: u32]\<rparr>"
  have l: "length ?ins = 8" by simp
  have h: "pack_header (fs st) ?ins = ?h"
    by (simp add: pack_header_def eval_nat_numeral slot_bytes_NULL)
  have c: "concat (map (slot_bytes (fs st)) ?ins) = []"
    by (simp add: slot_bytes_NULL)
  have rd: "\<forall>p \<in> set ?ins. \<not> unreadable (fs st) p" by (simp add: unreadable_def)
  have ro: "room_for (fs st) outp (40 + sum_list (map (\<lambda>p. length (slot_bytes (fs st) p)) ?ins))"
    using assms(2) by (simp add: slot_bytes_NULL sum_list_replicate)
  note w = pack_pbp_written [OF l rd assms(1) ro]
  have f: "files (fs (pack_pbp st outp ?ins)) outp = Some (header_bytes ?h)"
    using w(1) by (simp only: h c) simp
  have lh: "length (header_bytes ?h) = 40" by (simp add: length_header_bytes)
  have rh: "read_header (header_bytes ?h) = ?h"
    using read_header_bytes [of ?h "[]"] by simp
  have v: "validate_header ?h = (0, [])" by (simp add: validate_header_def)
  have lines: "map (analyze_line ?h) [0..<8] = map (\<lambda>n. Offset_line n None) default_file_names"
    by (simp add: upt8 analyze_line_def default_file_names_def)
  show ?thesis
    by (simp add: w(2) f lh analyze_file_def start_def sizeof_PBPHeader_def rh v lines
        del: upt_Suc)
qed

theorem pack_all_null_header_only_witness:
  "creatable (fs (start demo_world)) ''empty.pbp'' \<and>
   room_for (fs (start demo_world)) ''empty.pbp'' 40 \<and>
   exited (pack_pbp (start demo_world) ''empty.pbp'' (replicate 8 (Some ''NULL''))) = None \<and>
   length (the (files (fs (pack_pbp (start demo_world) ''empty.pbp''
     (replicate 8 (Some ''NULL'')))) ''empty.pbp'')) = 40 \<and>
   out (analyze_file (start (fs (pack_pbp (start demo_world) ''empty.pbp''
     (replicate 8 (Some ''NULL''))))) ''empty.pbp'') ! 11 = Offset_line ''DATA.PSAR'' None"
proof -
  have c: "creatable (fs (start demo_world)) ''empty.pbp''"
    by (simp add: start_def demo_world_def)
  have r: "room_for (fs (start demo_world)) ''empty.pbp'' 40" by (rule demo_room)
  have e: "exited (start demo_world) = None" by (simp add: start_def)
  from pack_all_null_header_only [OF c r] c r e show ?thesis
    by (simp add: default_file_names_def length_header_bytes)
qed

text \<open>
  \<^bold>\<open>C8\<close>. The claim as stated fails where the destination cannot take the header or cannot
  be created. On the file system that takes 10 bytes the pack returns normally, the
  destination holds 10 bytes and \<^verbatim>\<open>analyze_file\<close> on it exits with 1. Where no file can
  be created the pack exits with 1 and leaves no destination.
\<close>

theorem pack_all_null_short_counterexample:
  "exited (pack_pbp (start full_disk_world) ''empty.pbp'' (replicate 8 (Some ''NULL''))) = None \<and>
   length (the (files (fs (pack_pbp (start full_disk_world) ''empty.pbp''
     (replicate 8 (Some ''NULL'')))) ''empty.pbp'')) = 10 \<and>
   exited (analyze_file (start (fs (pack_pbp (start full_disk_world) ''empty.pbp''
     (replicate 8 (Some ''NULL''))))) ''empty.pbp'') = Some 1 \<and>
   exited (pack_pbp (start read_only_world) ''empty.pbp'' (replicate 8 (Some ''NULL''))) = Some 1 \<and>
   files (fs (pack_pbp (start read_only_world) ''empty.pbp'' (replicate 8 (Some ''NULL''))))
     ''empty.pbp'' = None"
proof -
  let ?ins = "replicate 8 (Some ''NULL'')"
  let ?r = "pack_pbp (start full_disk_world) ''empty.pbp'' ?ins"
  note p = full_disk_all_null
  have l: "length (take 10 (header_bytes (pack_header full_disk_world ?ins))) = 10"
    by (simp add: length_pack_header_bytes)
  then have a: "exited (analyze_file (start (fs ?r)) ''empty.pbp'') = Some 1"
    by (intro analyze_short_file [OF p(2)]) simp
  have rd: "pack_read (fs (start read_only_world)) ?ins (of_nat sizeof_PBPHeader) [] [] =
      Inr (replicate 8 40, replicate 8 None)"
    by (simp add: eval_nat_numeral sizeof_PBPHeader_def)
  have ro: "pack_pbp (start read_only_world) ''empty.pbp'' ?ins =
      die (start read_only_world) [Failed_create_output ''empty.pbp'']"
    unfolding pack_pbp_def rd by (simp add: fopen_wb_def start_def read_only_world_def)
  from p l a show ?thesis
    by (simp add: ro die_def) (simp add: start_def read_only_world_def)
qed

text \<open>
  \<^bold>\<open>C9\<close>. (as amended) Let a \<^verbatim>\<open>pack_pbp\<close> be successful and its destination file able to
  take all the bytes. The header that it writes passes
  \<^verbatim>\<open>validate_header\<close>, with signature bytes \<open>0, P, B, P\<close> and version \<open>{0, 1}\<close>. Its 8
  offsets start at 40, and offset \<open>i\<close> is 40 plus the lengths of the sources before slot
  \<open>i\<close>, in 32-bit arithmetic. They are non-decreasing when 40 plus the lengths of the
  first seven sources stays below \<open>2\<^sup>3\<^sup>2\<close>. The offset of a run of \<^verbatim>\<open>NULL\<close> slots equals
  the offset of the slot that follows the run.
\<close>

theorem pack_header_invariant:
  assumes "length ins = 8" and "exited (pack_pbp st outp ins) = None"
    and "room_for (fs st) outp (40 + sum_list (map (\<lambda>p. length (slot_bytes (fs st) p)) ins))"
  defines "h \<equiv> read_header (take sizeof_PBPHeader (the (files (fs (pack_pbp st outp ins)) outp)))"
  defines "len \<equiv> (\<lambda>p. length (slot_bytes (fs st) p))"
  shows "fst (validate_header h) = 0 \<and>
         signature h = [0x00, 0x50, 0x42, 0x50] \<and> version h = [0, 1] \<and>
         length (offset h) = 8 \<and> offset h ! 0 = 40 \<and>
         (\<forall>i < 8. offset h ! i = 40 + of_nat (sum_list (map len (take i ins)))) \<and>
         (40 + sum_list (map len (take 7 ins)) < 2 ^ 32 \<longrightarrow>
            (\<forall>i j. i \<le> j \<and> j < 8 \<longrightarrow> offset h ! i \<le> offset h ! j)) \<and>
         (\<forall>i j. i \<le> j \<and> j < 8 \<and> (\<forall>k. i \<le> k \<and> k < j \<longrightarrow> ins ! k = Some ''NULL'') \<longrightarrow>
            offset h ! i = offset h ! j)"
proof -
  let ?ns = "map len ins"
  have h: "h = pack_header (fs st) ins"
    unfolding h_def by (rule written_header [OF assms(1,2,3)])
  have ofs: "offset h = cursors 40 ?ns" by (simp add: h pack_header_def len_def)
  have ln: "length ?ns = 8" by (simp add: assms(1))
  have v: "fst (validate_header h) = 0" by (simp add: h pack_header_def validate_header_def)
  have nth: "\<forall>i < 8. offset h ! i = 40 + of_nat (sum_list (map len (take i ins)))"
    by (simp add: ofs cursors_nth assms(1) take_map)
  have mono: "\<forall>i j. i \<le> j \<and> j < 8 \<longrightarrow> offset h ! i \<le> offset h ! j"
    if b: "40 + sum_list (map len (take 7 ins)) < 2 ^ 32"
  proof (intro allI impI)
    fix i j :: nat assume ij: "i \<le> j \<and> j < 8"
    then have "sum_list (take j ?ns) \<le> sum_list (take 7 ?ns)"
      by (intro sum_list_take_le) simp
    with b have "40 + sum_list (take j ?ns) < 2 ^ 32" by (simp add: take_map)
    with ij ln show "offset h ! i \<le> offset h ! j"
      unfolding ofs by (intro cursors_mono) simp_all
  qed
  have skip: "\<forall>i j. i \<le> j \<and> j < 8 \<and> (\<forall>k. i \<le> k \<and> k < j \<longrightarrow> ins ! k = Some ''NULL'') \<longrightarrow>
            offset h ! i = offset h ! j"
  proof (intro allI impI)
    fix i j :: nat
    assume a: "i \<le> j \<and> j < 8 \<and> (\<forall>k. i \<le> k \<and> k < j \<longrightarrow> ins ! k = Some ''NULL'')"
    then have "\<forall>k. i \<le> k \<and> k < j \<longrightarrow> ?ns ! k = 0"
      using assms(1) by (auto simp: len_def slot_bytes_NULL)
    with a ln show "offset h ! i = offset h ! j"
      unfolding ofs by (intro cursors_skip) simp_all
  qed
  from v nth mono skip show ?thesis
    by (simp add: h pack_header_def length_cursors assms(1))
qed

theorem pack_header_invariant_witness:
  "length sfo_and_psar = 8 \<and>
   exited (pack_pbp (start demo_world) ''out.bin'' sfo_and_psar) = None \<and>
   room_for (fs (start demo_world)) ''out.bin''
     (40 + sum_list (map (\<lambda>p. length (slot_bytes (fs (start demo_world)) p)) sfo_and_psar)) \<and>
   40 + sum_list (map (\<lambda>p. length (slot_bytes (fs (start demo_world)) p)) (take 7 sfo_and_psar))
     < (2 ^ 32 :: nat) \<and>
   (0::nat) \<le> 7 \<and> (7::nat) < 8 \<and>
   sfo_and_psar ! 1 = Some ''NULL'' \<and> sfo_and_psar ! 2 = Some ''NULL'' \<and>
   sfo_and_psar ! 3 = Some ''NULL'' \<and> sfo_and_psar ! 4 = Some ''NULL'' \<and>
   sfo_and_psar ! 5 = Some ''NULL'' \<and> sfo_and_psar ! 6 = Some ''NULL'' \<and>
   offset (read_header (take sizeof_PBPHeader
     (the (files (fs (pack_pbp (start demo_world) ''out.bin'' sfo_and_psar)) ''out.bin'')))) ! 0
   \<le> offset (read_header (take sizeof_PBPHeader
     (the (files (fs (pack_pbp (start demo_world) ''out.bin'' sfo_and_psar)) ''out.bin'')))) ! 7 \<and>
   offset (read_header (take sizeof_PBPHeader
     (the (files (fs (pack_pbp (start demo_world) ''out.bin'' sfo_and_psar)) ''out.bin'')))) ! 1
   = offset (read_header (take sizeof_PBPHeader
     (the (files (fs (pack_pbp (start demo_world) ''out.bin'' sfo_and_psar)) ''out.bin'')))) ! 7"
proof -
  have h1: "length sfo_and_psar = 8" by (simp add: sfo_and_psar_def)
  have h2: "exited (pack_pbp (start demo_world) ''out.bin'' sfo_and_psar) = None"
    by (rule demo_pack_ok)
  have h3: "40 + sum_list (map (\<lambda>p. length (slot_bytes (fs (start demo_world)) p)) (take 7 sfo_and_psar))
     < (2 ^ 32 :: nat)"
    by (simp add: sfo_and_psar_def start_def demo_slot_bytes slot_bytes_NULL)
  have h4: "\<forall>k. 1 \<le> k \<and> k < 7 \<longrightarrow> sfo_and_psar ! k = Some ''NULL''"
  proof (intro allI impI)
    fix k :: nat assume "1 \<le> k \<and> k < 7"
    then have "k \<in> {1, 2, 3, 4, 5, 6}" by auto
    then show "sfo_and_psar ! k = Some ''NULL''" by (auto simp: sfo_and_psar_def)
  qed
  let ?H = "read_header (take sizeof_PBPHeader
     (the (files (fs (pack_pbp (start demo_world) ''out.bin'' sfo_and_psar)) ''out.bin'')))"
  have h0: "room_for (fs (start demo_world)) ''out.bin''
     (40 + sum_list (map (\<lambda>p. length (slot_bytes (fs (start demo_world)) p)) sfo_and_psar))"
    by (rule demo_room)
  note t = pack_header_invariant [OF h1 h2 h0]
  from t h3 have m: "\<forall>i j. i \<le> j \<and> j < 8 \<longrightarrow> offset ?H ! i \<le> offset ?H ! j"
    by blast
  from t have s: "\<forall>i j. i \<le> j \<and> j < 8 \<and> (\<forall>k. i \<le> k \<and> k < j \<longrightarrow> sfo_and_psar ! k = Some ''NULL'')
      \<longrightarrow> offset ?H ! i = offset ?H ! j"
    by blast
  from m [rule_format, of 0 7] have a: "offset ?H ! 0 \<le> offset ?H ! 7" by simp
  from s [rule_format, of 1 7] h4 have b: "offset ?H ! 1 = offset ?H ! 7" by simp
  have h5: "sfo_and_psar ! 1 = Some ''NULL'' \<and> sfo_and_psar ! 2 = Some ''NULL'' \<and>
   sfo_and_psar ! 3 = Some ''NULL'' \<and> sfo_and_psar ! 4 = Some ''NULL'' \<and>
   sfo_and_psar ! 5 = Some ''NULL'' \<and> sfo_and_psar ! 6 = Some ''NULL''"
    by (simp add: sfo_and_psar_def)
  from h1 h2 h0 h3 h5 a b show ?thesis by simp
qed

text \<open>
  \<^bold>\<open>C9\<close>. The claim as stated fails twice. Once the sources fill the offset range: with a
  first source of \<open>2\<^sup>3\<^sup>2 - 40\<close> bytes the pack succeeds and the second stored offset is
  below the first. And where the file system takes only 10 bytes: the pack returns
  normally, but the header it leaves is cut after 10 bytes and \<^verbatim>\<open>analyze_file\<close> cannot
  read it.
\<close>

theorem pack_offsets_wrap_counterexample:
  "exited (pack_pbp (start big_world) ''out.pbp'' big_first) = None \<and>
   offset (read_header (take sizeof_PBPHeader
     (the (files (fs (pack_pbp (start big_world) ''out.pbp'' big_first)) ''out.pbp'')))) ! 1
   < offset (read_header (take sizeof_PBPHeader
     (the (files (fs (pack_pbp (start big_world) ''out.pbp'' big_first)) ''out.pbp'')))) ! 0 \<and>
   exited (pack_pbp (start full_disk_world) ''out.bin'' sfo_and_psar) = None \<and>
   length (the (files (fs (pack_pbp (start full_disk_world) ''out.bin'' sfo_and_psar))
     ''out.bin'')) = 10 \<and>
   exited (analyze_file (start (fs (pack_pbp (start full_disk_world) ''out.bin'' sfo_and_psar)))
     ''out.bin'') = Some 1"
proof -
  have fl: "length (take 10 (header_bytes (pack_header full_disk_world sfo_and_psar) @ [1, 2])) = 10"
    by (simp add: length_pack_header_bytes sfo_and_psar_def)
  then have fa: "exited (analyze_file (start (fs (pack_pbp (start full_disk_world) ''out.bin''
      sfo_and_psar))) ''out.bin'') = Some 1"
    by (intro analyze_short_file [OF full_disk_pack(2)]) simp
  have l: "length big_first = 8" by (simp add: big_first_def)
  have ok: "exited (pack_pbp (start big_world) ''out.pbp'' big_first) = None"
    by (rule pack_pbp_succeeds)
      (simp_all add: big_first_def start_def big_world_def unreadable_def read_file_to_buffer_def)
  have b: "slot_bytes big_world (Some ''big.psar'') = big_file"
    by (simp add: slot_bytes_def slot_buffer_def buffer_bytes_def read_file_to_buffer_def
        big_world_def)
  have "offset (pack_header (fs (start big_world)) big_first) = [40, 0, 0, 0, 0, 0, 0, 0]"
    by (simp add: pack_header_def big_first_def start_def b slot_bytes_NULL length_big_file)
  moreover have "room_for (fs (start big_world)) ''out.pbp''
      (40 + sum_list (map (\<lambda>p. length (slot_bytes (fs (start big_world)) p)) big_first))"
    by (simp add: room_for_def start_def big_world_def)
  ultimately show ?thesis
    using ok fl fa full_disk_pack by (simp add: written_header [OF l ok])
qed

section \<open>The loop of unpack\<close>

text \<open>The four ways a round of the loop can go.\<close>

lemma unpack_segment_cases:
  fixes d c h i st
  defines "sz \<equiv> segment_size h (int (length c)) i"
  defines "corr \<equiv> uint (offset h ! i) - 40"
  defines "p \<equiv> outpath d i"
  obtains
    (absent) "sz = 0" "unpack_segment d c h i st = st"
  | (skipped) "sz \<noteq> 0" "corr < 0 \<or> corr + uint sz > int (length c)"
      "unpack_segment d c h i st = st\<lparr>err := err st @ [Skipping (default_file_names ! i)]\<rparr>"
  | (refused) "sz \<noteq> 0" "\<not> (corr < 0 \<or> corr + uint sz > int (length c))"
      "\<not> creatable (fs st) p"
      "unpack_segment d c h i st = st\<lparr>err := err st @ [Failed_create p]\<rparr>"
  | (opened) w1 s1 w2 s2 k where "sz \<noteq> 0" "\<not> (corr < 0 \<or> corr + uint sz > int (length c))"
      "fopen_wb (fs st) p = Some (w1, s1)"
      "fwrite w1 s1 (take (unat sz) (drop (nat corr) c)) = (w2, s2, k)"
      "unpack_segment d c h i st =
         (if k \<noteq> unat sz then st\<lparr>fs := fclose w2 s2, err := err st @ [Failed_write p]\<rparr>
          else st\<lparr>fs := fclose w2 s2\<rparr>)"
proof (cases "sz = 0")
  case True
  then have "unpack_segment d c h i st = st" by (simp add: unpack_segment_def sz_def)
  with True show ?thesis by (rule absent)
next
  case nz: False
  show ?thesis
  proof (cases "corr < 0 \<or> corr + uint sz > int (length c)")
    case True
    with nz have "unpack_segment d c h i st =
        st\<lparr>err := err st @ [Skipping (default_file_names ! i)]\<rparr>"
      by (simp add: unpack_segment_def sz_def corr_def sizeof_PBPHeader_def)
    with nz True show ?thesis by (rule skipped)
  next
    case ok: False
    show ?thesis
    proof (cases "fopen_wb (fs st) p")
      case None
      with nz ok have "unpack_segment d c h i st = st\<lparr>err := err st @ [Failed_create p]\<rparr>"
        by (simp add: unpack_segment_def sz_def corr_def p_def sizeof_PBPHeader_def)
      moreover from None have "\<not> creatable (fs st) p" by (simp add: fopen_wb_None)
      ultimately show ?thesis using nz ok by (intro refused)
    next
      case (Some a)
      obtain w1 s1 where a: "a = (w1, s1)" by (cases a)
      obtain w2 s2 k where fw: "fwrite w1 s1 (take (unat sz) (drop (nat corr) c)) = (w2, s2, k)"
        by (cases "fwrite w1 s1 (take (unat sz) (drop (nat corr) c))")
      from nz ok Some a fw have "unpack_segment d c h i st =
         (if k \<noteq> unat sz then st\<lparr>fs := fclose w2 s2, err := err st @ [Failed_write p]\<rparr>
          else st\<lparr>fs := fclose w2 s2\<rparr>)"
        by (simp add: unpack_segment_def sz_def corr_def p_def sizeof_PBPHeader_def)
      with nz ok Some [unfolded a] fw show ?thesis by (intro opened)
    qed
  qed
qed

lemma unpack_segment_exited: "exited (unpack_segment d c h i st) = exited st"
  by (cases d c h i st rule: unpack_segment_cases) simp_all

lemma unpack_segment_out: "out (unpack_segment d c h i st) = out st"
  by (cases d c h i st rule: unpack_segment_cases) simp_all

lemma unpack_segment_fs:
  "creatable (fs (unpack_segment d c h i st)) = creatable (fs st) \<and>
   room (fs (unpack_segment d c h i st)) = room (fs st) \<and>
   mkdir_ok (fs (unpack_segment d c h i st)) = mkdir_ok (fs st) \<and>
   buffered (fs (unpack_segment d c h i st)) = buffered (fs st) \<and>
   (\<forall>p. p \<noteq> outpath d i \<longrightarrow> files (fs (unpack_segment d c h i st)) p = files (fs st) p)"
proof (cases d c h i st rule: unpack_segment_cases)
  case (opened w1 s1 w2 s2 k)
  note f = fopen_wb_Some [OF opened(3)] fwrite_static [OF opened(4)] fclose_static [of w2 s2]
  from f have "spath s2 = outpath d i" by simp
  with f opened(5) show ?thesis by simp
qed simp_all

lemma unpack_segment_static:
  "creatable (fs (unpack_segment d c h i st)) = creatable (fs st)"
  "room (fs (unpack_segment d c h i st)) = room (fs st)"
  "mkdir_ok (fs (unpack_segment d c h i st)) = mkdir_ok (fs st)"
  using unpack_segment_fs [of d c h i st] by simp_all

lemma unpack_segment_other:
  "p \<noteq> outpath d i \<Longrightarrow> files (fs (unpack_segment d c h i st)) p = files (fs st) p"
  using unpack_segment_fs [of d c h i st] by simp

lemma unpack_segment_err:
  "\<exists>ms. err (unpack_segment d c h i st) = err st @ ms \<and> set ms \<subseteq> segment_msgs d i"
proof (cases d c h i st rule: unpack_segment_cases)
  case absent
  then show ?thesis by simp
next
  case skipped
  then show ?thesis by (simp add: segment_msgs_def)
next
  case refused
  then show ?thesis by (simp add: segment_msgs_def)
next
  case (opened w1 s1 w2 s2 k)
  then show ?thesis by (cases "k = unat (segment_size h (int (length c)) i)")
      (simp_all add: segment_msgs_def)
qed

lemma unpack_segment_absent:
  "segment_size h (int (length c)) i = 0 \<Longrightarrow> unpack_segment d c h i st = st"
  by (simp add: unpack_segment_def)


text \<open>A segment of positive length is never passed over: it leaves a line or a file.\<close>

lemma unpack_segment_present:
  assumes "segment_size h (int (length c)) i \<noteq> 0"
  shows "(\<exists>m. err (unpack_segment d c h i st) = err st @ [m]) \<or>
         files (fs (unpack_segment d c h i st)) (outpath d i) \<noteq> None"
proof (cases d c h i st rule: unpack_segment_cases)
  case absent
  with assms show ?thesis by simp
next
  case skipped
  then show ?thesis by simp
next
  case refused
  then show ?thesis by simp
next
  case (opened w1 s1 w2 s2 k)
  note f = fopen_wb_Some [OF opened(3)] fwrite_static [OF opened(4)] fclose_static [of w2 s2]
  from f have "files (fclose w2 s2) (outpath d i) \<noteq> None" by simp
  with opened(5) show ?thesis by simp
qed

lemma unpack_segment_written:
  assumes "segment_size h (int (length c)) i \<noteq> 0"
    and "40 \<le> uint (offset h ! i)"
    and "uint (offset h ! i) - 40 + uint (segment_size h (int (length c)) i) \<le> int (length c)"
    and "creatable (fs st) (outpath d i)"
    and "room_for (fs st) (outpath d i) (unat (segment_size h (int (length c)) i))"
  shows "files (fs (unpack_segment d c h i st)) (outpath d i) =
           Some (take (unat (segment_size h (int (length c)) i))
                  (drop (nat (uint (offset h ! i) - 40)) c))"
    and "length (take (unat (segment_size h (int (length c)) i))
                  (drop (nat (uint (offset h ! i) - 40)) c)) = unat (segment_size h (int (length c)) i)"
    and "err (unpack_segment d c h i st) = err st"
proof -
  let ?sz = "segment_size h (int (length c)) i"
  let ?d = "take (unat ?sz) (drop (nat (uint (offset h ! i) - 40)) c)"
  have "uint ?sz = int (unat ?sz)" by simp
  with assms(2,3) have "nat (uint (offset h ! i) - 40) + unat ?sz \<le> length c"
    by linarith
  then show l: "length ?d = unat ?sz" by simp
  have both: "files (fs (unpack_segment d c h i st)) (outpath d i) = Some ?d \<and>
      err (unpack_segment d c h i st) = err st"
  proof (cases d c h i st rule: unpack_segment_cases)
    case absent
    with assms(1) show ?thesis by simp
  next
    case skipped
    with assms(2,3) show ?thesis by simp
  next
    case refused
    with assms(4) show ?thesis by simp
  next
    case (opened w1 s1 w2 s2 k)
    note o = fopen_wb_Some [OF opened(3)]
    then have h1: "holds w1 s1 []" and p1: "spath s1 = outpath d i" by simp_all
    from assms(5) o l have r1: "room_for w1 (spath s1) (length ([] :: byte list) + length ?d)"
      by (simp add: room_for_def)
    from fwrite_holds [OF h1 r1 opened(4)] l
    have k: "k = unat ?sz" and h2: "holds w2 s2 ?d" by simp_all
    note f = fwrite_static [OF opened(4)]
    from assms(5) o f l have r2: "room_for w2 (spath s2) (length ?d)"
      by (simp add: room_for_def)
    from fclose_holds [OF h2 r2] f p1
    have "files (fclose w2 s2) (outpath d i) = Some ?d" by simp
    with opened(5) k show ?thesis by simp
  qed
  then show "files (fs (unpack_segment d c h i st)) (outpath d i) = Some ?d"
    and "err (unpack_segment d c h i st) = err st" by simp_all
qed

lemma unpack_loop_exited: "exited (unpack_loop d c h i st) = exited st"
proof (induction d c h i st rule: unpack_loop.induct)
  case (1 d c h i st)
  show ?case
  proof (cases "i < 8")
    case True
    with 1 show ?thesis by (subst unpack_loop.simps) (simp add: unpack_segment_exited)
  next
    case False
    then show ?thesis by (subst unpack_loop.simps) simp
  qed
qed

lemma unpack_loop_static:
  "creatable (fs (unpack_loop d c h i st)) = creatable (fs st) \<and>
   room (fs (unpack_loop d c h i st)) = room (fs st)"
proof (induction d c h i st rule: unpack_loop.induct)
  case (1 d c h i st)
  show ?case
  proof (cases "i < 8")
    case True
    with 1 show ?thesis by (subst (1 2) unpack_loop.simps) (simp add: unpack_segment_static)
  next
    case False
    then show ?thesis by (subst (1 2) unpack_loop.simps) simp
  qed
qed

lemma unpack_loop_other:
  "\<forall>j. i \<le> j \<and> j < 8 \<longrightarrow> p \<noteq> outpath d j \<Longrightarrow>
     files (fs (unpack_loop d c h i st)) p = files (fs st) p"
proof (induction d c h i st rule: unpack_loop.induct)
  case (1 d c h i st)
  show ?case
  proof (cases "i < 8")
    case True
    from "1.prems" have "\<forall>j. i + 1 \<le> j \<and> j < 8 \<longrightarrow> p \<noteq> outpath d j" by auto
    from "1.IH" [OF True this] True "1.prems" show ?thesis
      by (subst unpack_loop.simps) (simp add: unpack_segment_other)
  next
    case False
    then show ?thesis by (subst unpack_loop.simps) simp
  qed
qed

lemma unpack_loop_err:
  "\<exists>ms. err (unpack_loop d c h i st) = err st @ ms \<and> set ms \<subseteq> (\<Union>j \<in> {i..<8}. segment_msgs d j)"
proof (induction d c h i st rule: unpack_loop.induct)
  case (1 d c h i st)
  show ?case
  proof (cases "i < 8")
    case True
    let ?st = "unpack_segment d c h i st"
    from "1.IH" [OF True] obtain ms where ms: "err (unpack_loop d c h (i + 1) ?st) = err ?st @ ms"
      "set ms \<subseteq> (\<Union>j \<in> {i + 1..<8}. segment_msgs d j)" by blast
    from unpack_segment_err [of d c h i st] obtain ms0 where ms0: "err ?st = err st @ ms0"
      "set ms0 \<subseteq> segment_msgs d i" by blast
    have "{i..<8} = insert i {i + 1..<8}" using True by auto
    with ms ms0 have "set (ms0 @ ms) \<subseteq> (\<Union>j \<in> {i..<8}. segment_msgs d j)" by auto
    moreover have "err (unpack_loop d c h i st) = err st @ (ms0 @ ms)"
      using True ms ms0 by (subst unpack_loop.simps) simp
    ultimately show ?thesis by blast
  next
    case False
    then show ?thesis by (subst unpack_loop.simps) simp
  qed
qed

section \<open>Claims about the validator and the offset resolver\<close>

text \<open>
  \<^bold>\<open>C3\<close>. (as amended) For a header whose signature bytes 1 to 3 are \<open>P, B, P\<close>,
  \<^verbatim>\<open>validate_header\<close> returns 0 exactly when \<^verbatim>\<open>version[1] == 1\<close> or
  \<^verbatim>\<open>version[0] == 0\<close>, whatever signature byte 0 is, and returns -2 (invalid version)
  otherwise. In particular the version \<open>{0, 1}\<close> is accepted for any signature byte 0, the
  version with \<^verbatim>\<open>version[0] = 0\<close> and \<^verbatim>\<open>version[1] = 5\<close> is accepted, and the versions
  \<open>{5, 0}\<close> and \<open>{5, 2}\<close> are rejected with -2.
\<close>

theorem validate_header_acceptance:
  assumes "signature h ! 1 = 0x50" and "signature h ! 2 = 0x42" and "signature h ! 3 = 0x50"
  shows "(fst (validate_header h) = 0 \<longleftrightarrow> version h ! 1 = 1 \<or> version h ! 0 = 0) \<and>
         (fst (validate_header h) \<noteq> 0 \<longrightarrow> fst (validate_header h) = - 2) \<and>
         fst (validate_header \<lparr>signature = [x, 0x50, 0x42, 0x50], version = [0, 1], offset = ofs\<rparr>) = 0 \<and>
         fst (validate_header \<lparr>signature = [x, 0x50, 0x42, 0x50], version = [0, 5], offset = ofs\<rparr>) = 0 \<and>
         fst (validate_header \<lparr>signature = [x, 0x50, 0x42, 0x50], version = [5, 0], offset = ofs\<rparr>) = - 2 \<and>
         fst (validate_header \<lparr>signature = [x, 0x50, 0x42, 0x50], version = [5, 2], offset = ofs\<rparr>) = - 2"
  using assms by (simp add: validate_header_def)

theorem validate_header_acceptance_witness:
  "signature bad_version ! 1 = 0x50 \<and> signature bad_version ! 2 = 0x42 \<and>
   signature bad_version ! 3 = 0x50 \<and> version bad_version ! 1 \<noteq> 1 \<and> version bad_version ! 0 \<noteq> 0 \<and>
   fst (validate_header bad_version) = - 2"
proof -
  have s: "signature bad_version ! 1 = 0x50" "signature bad_version ! 2 = 0x42"
    "signature bad_version ! 3 = 0x50"
    by (simp_all add: bad_version_def)
  have v: "version bad_version ! 1 \<noteq> 1 \<and> version bad_version ! 0 \<noteq> 0"
    by (simp add: bad_version_def)
  from validate_header_acceptance [OF s] v s show ?thesis by auto
qed

text \<open>
  \<^bold>\<open>C3\<close>. The claim as stated fails at its second example. Written as the array the claim
  uses for \<open>{0, 1}\<close>, the version \<open>{5, 0}\<close> has \<^verbatim>\<open>version[0] = 5\<close> and
  \<^verbatim>\<open>version[1] = 0\<close> and is rejected. Read in the other order, where \<open>{5, 0}\<close> would be
  accepted, the first example \<open>{0, 1}\<close> becomes \<^verbatim>\<open>version[0] = 1\<close>, \<^verbatim>\<open>version[1] = 0\<close>
  and is rejected: no reading of the pair makes both examples hold.
\<close>

theorem validate_header_example_counterexample:
  "fst (validate_header bad_version) = - 2 \<and> fst (validate_header swapped_version) = - 2"
  by (simp add: validate_header_def bad_version_def swapped_version_def)

text \<open>
  \<^bold>\<open>C2\<close>. (as amended) In the loop of \<^verbatim>\<open>unpack_pbp\<close> a segment is treated as absent, that
  is, its round leaves every state as it is, if and only if its computed length is 0; a
  segment of another length leaves a diagnostic or an output file. For \<open>i < 7\<close> the
  computed length is 0 exactly when
  \<^verbatim>\<open>offsets[i+1] <= offsets[i]\<close>, and otherwise it is \<^verbatim>\<open>offsets[i+1] - offsets[i]\<close>. For
  \<open>i = 7\<close> the file length enters through the cast to \<^verbatim>\<open>uint32_t\<close>: the length is 0
  exactly when the file length modulo \<open>2\<^sup>3\<^sup>2\<close> is at most \<^verbatim>\<open>offsets[7]\<close>, and otherwise it is
  their difference; for a file length below \<open>2\<^sup>3\<^sup>2\<close> this is the law as the claim has it.
\<close>

theorem segment_presence_law:
  "(i < 7 \<longrightarrow>
      (segment_size h file_len i = 0 \<longleftrightarrow> offset h ! (i + 1) \<le> offset h ! i) \<and>
      (segment_size h file_len i \<noteq> 0 \<longrightarrow>
         unat (segment_size h file_len i) = unat (offset h ! (i + 1)) - unat (offset h ! i))) \<and>
   (segment_size h file_len 7 = 0 \<longleftrightarrow> file_len mod 2 ^ 32 \<le> uint (offset h ! 7)) \<and>
   (segment_size h file_len 7 \<noteq> 0 \<longrightarrow>
      uint (segment_size h file_len 7) = file_len mod 2 ^ 32 - uint (offset h ! 7)) \<and>
   (0 \<le> file_len \<and> file_len < 2 ^ 32 \<longrightarrow>
      (segment_size h file_len 7 = 0 \<longleftrightarrow> file_len \<le> uint (offset h ! 7)) \<and>
      (segment_size h file_len 7 \<noteq> 0 \<longrightarrow>
         uint (segment_size h file_len 7) = file_len - uint (offset h ! 7))) \<and>
   ((\<forall>st. unpack_segment dir content h i st = st) \<longleftrightarrow>
      segment_size h (int (length content)) i = 0) \<and>
   (segment_size h (int (length content)) i \<noteq> 0 \<longrightarrow>
      (\<exists>m. err (unpack_segment dir content h i st) = err st @ [m]) \<or>
      files (fs (unpack_segment dir content h i st)) (outpath dir i) \<noteq> None)"
proof -
  have a: "segment_size h file_len i = 0 \<longleftrightarrow> offset h ! (i + 1) \<le> offset h ! i" if "i < 7"
    using that by (auto simp: segment_size_def Let_def not_less)
  have b: "unat (segment_size h file_len i) = unat (offset h ! (i + 1)) - unat (offset h ! i)"
    if "i < 7" "segment_size h file_len i \<noteq> 0"
    using that by (auto simp: segment_size_def Let_def unat_sub word_less_def word_le_def split: if_splits)
  have u: "uint (word_of_int file_len :: u32) = file_len mod 2 ^ 32"
    by (simp add: uint_word_of_int)
  have c: "segment_size h file_len 7 = 0 \<longleftrightarrow> file_len mod 2 ^ 32 \<le> uint (offset h ! 7)"
    unfolding u [symmetric] by (auto simp: segment_size_def Let_def word_le_def [symmetric] not_less)
  have d: "uint (segment_size h file_len 7) = file_len mod 2 ^ 32 - uint (offset h ! 7)"
    if "segment_size h file_len 7 \<noteq> 0"
    using that unfolding u [symmetric]
    by (auto simp: segment_size_def Let_def uint_sub_if' word_less_def word_le_def split: if_splits)
  have m: "file_len mod 2 ^ 32 = file_len" if "0 \<le> file_len \<and> file_len < 2 ^ 32"
    using that by simp
  have e: "(\<forall>st. unpack_segment dir content h i st = st) \<longleftrightarrow>
      segment_size h (int (length content)) i = 0"
  proof
    assume same: "\<forall>st. unpack_segment dir content h i st = st"
    show "segment_size h (int (length content)) i = 0"
    proof (rule ccontr)
      assume nz: "segment_size h (int (length content)) i \<noteq> 0"
      let ?st = "start \<lparr>files = (\<lambda>p. None), creatable = (\<lambda>p. True), room = (\<lambda>p. None),
        mkdir_ok = (\<lambda>p. True), buffered = (\<lambda>m n. 0)\<rparr>"
      from unpack_segment_present [OF nz, of dir ?st] same show False
        by (simp add: start_def)
    qed
  next
    assume "segment_size h (int (length content)) i = 0"
    then show "\<forall>st. unpack_segment dir content h i st = st"
      by (simp add: unpack_segment_absent)
  qed
  have f: "(\<exists>m. err (unpack_segment dir content h i st) = err st @ [m]) \<or>
      files (fs (unpack_segment dir content h i st)) (outpath dir i) \<noteq> None"
    if "segment_size h (int (length content)) i \<noteq> 0"
    using that by (rule unpack_segment_present)
  from a b c d m show "?thesis"
    by (intro conjI impI) (use e f in auto)
qed

theorem segment_presence_law_witness:
  "(0::nat) < 7 \<and> (1::nat) < 7 \<and> (0::int) \<le> 42 \<and> (42::int) < 2 ^ 32 \<and>
   segment_size sfo_header 42 0 \<noteq> 0 \<and> unat (segment_size sfo_header 42 0) = 1 \<and>
   segment_size sfo_header 42 1 = 0 \<and>
   segment_size sfo_header 42 7 \<noteq> 0 \<and> uint (segment_size sfo_header 42 7) = 1 \<and>
   segment_size sfo_header (int (length sfo_container)) 1 = 0 \<and>
   unpack_segment ''dir'' sfo_container sfo_header 1 (start demo_world) = start demo_world \<and>
   segment_size sfo_header (int (length sfo_container)) 0 \<noteq> 0 \<and>
   ((\<exists>m. err (unpack_segment ''dir'' sfo_container sfo_header 0 (start demo_world)) =
       err (start demo_world) @ [m]) \<or>
    files (fs (unpack_segment ''dir'' sfo_container sfo_header 0 (start demo_world)))
      (outpath ''dir'' 0) \<noteq> None)"
proof -
  have s0: "segment_size sfo_header 42 0 \<noteq> 0"
    by (simp add: segment_size_def sfo_header_def)
  have s7: "segment_size sfo_header 42 7 \<noteq> 0"
    by (simp add: segment_size_def sfo_header_def)
  have l: "int (length sfo_container) = 42"
    by (simp add: sfo_container_def length_header_bytes sfo_header_def)
  have s1: "segment_size sfo_header 42 1 = 0"
    by (simp add: segment_size_def sfo_header_def)
  note t0 = segment_presence_law [where i = 0 and h = sfo_header and file_len = 42
      and content = sfo_container and dir = "''dir''" and st = "start demo_world"]
  note t1 = segment_presence_law [where i = 1 and h = sfo_header and file_len = 42
      and content = sfo_container and dir = "''dir''" and st = "start demo_world"]
  from t0 s0 have a: "unat (segment_size sfo_header 42 0) = 1"
    by (simp add: sfo_header_def)
  from t0 s7 have b: "uint (segment_size sfo_header 42 7) = 1"
    by (simp add: sfo_header_def)
  from t1 have "(\<forall>st. unpack_segment ''dir'' sfo_container sfo_header 1 st = st) \<longleftrightarrow>
      segment_size sfo_header (int (length sfo_container)) 1 = 0" by blast
  with s1 l have "\<forall>st. unpack_segment ''dir'' sfo_container sfo_header 1 st = st" by simp
  then have c: "unpack_segment ''dir'' sfo_container sfo_header 1 (start demo_world) = start demo_world"
    by blast
  from t0 have "segment_size sfo_header (int (length sfo_container)) 0 \<noteq> 0 \<longrightarrow>
    (\<exists>m. err (unpack_segment ''dir'' sfo_container sfo_header 0 (start demo_world)) =
       err (start demo_world) @ [m]) \<or>
    files (fs (unpack_segment ''dir'' sfo_container sfo_header 0 (start demo_world)))
      (outpath ''dir'' 0) \<noteq> None" by blast
  with s0 l have d: "(\<exists>m. err (unpack_segment ''dir'' sfo_container sfo_header 0 (start demo_world)) =
       err (start demo_world) @ [m]) \<or>
    files (fs (unpack_segment ''dir'' sfo_container sfo_header 0 (start demo_world)))
      (outpath ''dir'' 0) \<noteq> None"
    by simp
  from s0 s7 l s1 a b c d show ?thesis by simp
qed

text \<open>
  \<^bold>\<open>C2\<close>. The claim as stated fails for a file of \<open>2\<^sup>3\<^sup>2 + 10\<close> bytes whose last offset is 40:
  the file length exceeds the offset, yet the computed length of segment 7 is 0.
\<close>

theorem segment_presence_large_file_counterexample:
  "segment_size header_only huge_len 7 = 0 \<and> \<not> huge_len \<le> uint (offset header_only ! 7)"
  by (simp add: segment_size_def header_only_def huge_len_def)

section \<open>Claims about unpack\<close>



section \<open>The loop of unpack as a whole\<close>

lemma distinct_default_file_names: "distinct default_file_names"
  by (simp add: default_file_names_def)

lemma length_default_file_names: "length default_file_names = 8"
  by (simp add: default_file_names_def)

lemma default_file_names_short: "i < 8 \<Longrightarrow> length (default_file_names ! i) \<le> 9"
proof -
  assume "i < 8"
  then have "i \<in> {0, 1, 2, 3, 4, 5, 6, 7}" by auto
  then show ?thesis by (auto simp: default_file_names_def)
qed

lemma outpath_full:
  "length d \<le> 4085 \<Longrightarrow> i < 8 \<Longrightarrow> outpath d i = d @ ''/'' @ default_file_names ! i"
  using default_file_names_short [of i] by (simp add: outpath_def)

lemma outpath_inj:
  assumes "length d \<le> 4085" and "i < 8" and "j < 8" and "outpath d i = outpath d j"
  shows "i = j"
proof -
  from assms have "default_file_names ! i = default_file_names ! j"
    by (simp add: outpath_full)
  with assms(2,3) show ?thesis
    by (simp add: nth_eq_iff_index_eq [OF distinct_default_file_names] length_default_file_names)
qed

lemma unpack_loop_upto:
  assumes "k \<le> i" and "i < 8"
  shows "\<exists>st'. unpack_loop d c h k st = unpack_loop d c h (i + 1) (unpack_segment d c h i st') \<and>
           creatable (fs st') = creatable (fs st) \<and> room (fs st') = room (fs st) \<and>
           (\<forall>p. (\<forall>j. k \<le> j \<and> j < i \<longrightarrow> p \<noteq> outpath d j) \<longrightarrow> files (fs st') p = files (fs st) p) \<and>
           (\<exists>ms. err st' = err st @ ms \<and> set ms \<subseteq> (\<Union>j \<in> {k..<i}. segment_msgs d j))"
  using assms
proof (induction "i - k" arbitrary: k st)
  case 0
  then have "k = i" by simp
  with 0 have "unpack_loop d c h k st = unpack_loop d c h (i + 1) (unpack_segment d c h i st)"
    by (subst unpack_loop.simps) simp
  with \<open>k = i\<close> show ?case by (intro exI [of _ st]) simp
next
  case (Suc n)
  then have lt: "k < i" and k8: "k < 8" by simp_all
  let ?s = "unpack_segment d c h k st"
  from Suc have n: "n = i - (k + 1)" and le: "k + 1 \<le> i" by simp_all
  from Suc.hyps(1) [OF n le Suc.prems(2), of ?s] obtain st' ms where
    eq: "unpack_loop d c h (k + 1) ?s = unpack_loop d c h (i + 1) (unpack_segment d c h i st')"
    and cr: "creatable (fs st') = creatable (fs ?s)" and ro: "room (fs st') = room (fs ?s)"
    and fl: "\<forall>p. (\<forall>j. k + 1 \<le> j \<and> j < i \<longrightarrow> p \<noteq> outpath d j) \<longrightarrow> files (fs st') p = files (fs ?s) p"
    and ms: "err st' = err ?s @ ms" "set ms \<subseteq> (\<Union>j \<in> {k + 1..<i}. segment_msgs d j)"
    by blast
  from unpack_segment_err [of d c h k st] obtain ms0 where
    ms0: "err ?s = err st @ ms0" "set ms0 \<subseteq> segment_msgs d k" by blast
  have a: "unpack_loop d c h k st = unpack_loop d c h (i + 1) (unpack_segment d c h i st')"
    using k8 eq by (subst unpack_loop.simps) simp
  have b: "\<forall>p. (\<forall>j. k \<le> j \<and> j < i \<longrightarrow> p \<noteq> outpath d j) \<longrightarrow> files (fs st') p = files (fs st) p"
  proof (intro allI impI)
    fix p assume p: "\<forall>j. k \<le> j \<and> j < i \<longrightarrow> p \<noteq> outpath d j"
    then have "\<forall>j. k + 1 \<le> j \<and> j < i \<longrightarrow> p \<noteq> outpath d j" by auto
    with fl have "files (fs st') p = files (fs ?s) p" by blast
    moreover from p lt have "p \<noteq> outpath d k" by auto
    ultimately show "files (fs st') p = files (fs st) p"
      by (simp add: unpack_segment_other)
  qed
  have "{k..<i} = insert k {k + 1..<i}" using lt by auto
  with ms ms0 have c: "err st' = err st @ (ms0 @ ms)"
    "set (ms0 @ ms) \<subseteq> (\<Union>j \<in> {k..<i}. segment_msgs d j)"
    by auto
  from a b c cr ro show ?case
    by (intro exI [of _ st']) (auto simp: unpack_segment_static)
qed

lemma unpack_loop_done: "unpack_loop d c h 8 st = st"
  by (subst unpack_loop.simps) simp

lemma unpack_loop_written_last:
  assumes "i < 8" and later: "\<forall>j. i + 1 \<le> j \<and> j < 8 \<longrightarrow> outpath d i \<noteq> outpath d j"
    and "segment_size h (int (length c)) i \<noteq> 0"
    and "40 \<le> uint (offset h ! i)"
    and "uint (offset h ! i) - 40 + uint (segment_size h (int (length c)) i) \<le> int (length c)"
    and "creatable (fs st) (outpath d i)"
    and "room_for (fs st) (outpath d i) (unat (segment_size h (int (length c)) i))"
  shows "files (fs (unpack_loop d c h 0 st)) (outpath d i) =
           Some (take (unat (segment_size h (int (length c)) i))
                  (drop (nat (uint (offset h ! i) - 40)) c))"
proof -
  from unpack_loop_upto [of 0 i d c h st] assms(1) obtain st' where
    eq: "unpack_loop d c h 0 st = unpack_loop d c h (i + 1) (unpack_segment d c h i st')"
    and cr: "creatable (fs st') = creatable (fs st)" and ro: "room (fs st') = room (fs st)"
    by auto
  from assms(6,7) cr ro have c': "creatable (fs st') (outpath d i)"
    and r': "room_for (fs st') (outpath d i) (unat (segment_size h (int (length c)) i))"
    by (simp_all add: room_for_def)
  have "files (fs (unpack_loop d c h 0 st)) (outpath d i) =
          files (fs (unpack_segment d c h i st')) (outpath d i)"
    unfolding eq by (rule unpack_loop_other [OF later])
  with unpack_segment_written(1) [OF assms(3,4,5) c' r'] show ?thesis by simp
qed

lemma unpack_loop_written:
  assumes "i < 8" and "length d \<le> 4085"
    and "segment_size h (int (length c)) i \<noteq> 0"
    and "40 \<le> uint (offset h ! i)"
    and "uint (offset h ! i) - 40 + uint (segment_size h (int (length c)) i) \<le> int (length c)"
    and "creatable (fs st) (outpath d i)"
    and "room_for (fs st) (outpath d i) (unat (segment_size h (int (length c)) i))"
  shows "files (fs (unpack_loop d c h 0 st)) (outpath d i) =
           Some (take (unat (segment_size h (int (length c)) i))
                  (drop (nat (uint (offset h ! i) - 40)) c))"
proof -
  have later: "\<forall>j. i + 1 \<le> j \<and> j < 8 \<longrightarrow> outpath d i \<noteq> outpath d j"
    using outpath_inj [OF assms(2) assms(1)] by fastforce
  show ?thesis by (rule unpack_loop_written_last [OF assms(1) later assms(3-7)])
qed

lemma unpack_segment_refused:
  "\<not> creatable (fs st) (outpath d i) \<Longrightarrow> fs (unpack_segment d c h i st) = fs st"
proof (cases d c h i st rule: unpack_segment_cases)
  case (opened w1 s1 w2 s2 k)
  assume "\<not> creatable (fs st) (outpath d i)"
  with fopen_wb_Some [OF opened(3)] show ?thesis by simp
qed simp_all

lemma unpack_loop_refused:
  "\<forall>p. \<not> creatable (fs st) p \<Longrightarrow> fs (unpack_loop d c h k st) = fs st"
proof (induction d c h k st rule: unpack_loop.induct)
  case (1 d c h k st)
  show ?case
  proof (cases "k < 8")
    case True
    let ?s = "unpack_segment d c h k st"
    from "1.prems" have e: "fs ?s = fs st" by (simp add: unpack_segment_refused)
    with "1.prems" have "\<forall>p. \<not> creatable (fs ?s) p" by simp
    from "1.IH" [OF True this] e True show ?thesis
      by (subst unpack_loop.simps) simp
  next
    case False
    then show ?thesis by (subst unpack_loop.simps) simp
  qed
qed

lemma unpack_loop_quiet:
  assumes "\<forall>i. k \<le> i \<and> i < 8 \<longrightarrow>
      segment_size h (int (length c)) i = 0 \<or>
      40 \<le> uint (offset h ! i) \<and>
      uint (offset h ! i) - 40 + uint (segment_size h (int (length c)) i) \<le> int (length c) \<and>
      creatable (fs st) (outpath d i) \<and>
      room_for (fs st) (outpath d i) (unat (segment_size h (int (length c)) i))"
  shows "err (unpack_loop d c h k st) = err st"
  using assms
proof (induction d c h k st rule: unpack_loop.induct)
  case (1 d c h k st)
  show ?case
  proof (cases "k < 8")
    case True
    let ?s = "unpack_segment d c h k st"
    have e: "err ?s = err st"
    proof (cases "segment_size h (int (length c)) k = 0")
      case True
      then show ?thesis by (simp add: unpack_segment_absent)
    next
      case False
      with "1.prems" \<open>k < 8\<close> show ?thesis
        by (intro unpack_segment_written(3)) auto
    qed
    from "1.prems" have "\<forall>i. k + 1 \<le> i \<and> i < 8 \<longrightarrow>
      segment_size h (int (length c)) i = 0 \<or>
      40 \<le> uint (offset h ! i) \<and>
      uint (offset h ! i) - 40 + uint (segment_size h (int (length c)) i) \<le> int (length c) \<and>
      creatable (fs ?s) (outpath d i) \<and>
      room_for (fs ?s) (outpath d i) (unat (segment_size h (int (length c)) i))"
      by (simp add: unpack_segment_static room_for_def)
    from "1.IH" [OF True this] e True show ?thesis
      by (subst unpack_loop.simps) simp
  next
    case False
    then show ?thesis by (subst unpack_loop.simps) simp
  qed
qed

lemma unpack_loop_last_absent:
  assumes "segment_size h (int (length c)) 7 = 0"
  shows "Skipping (default_file_names ! 7) \<notin> set (err (unpack_loop d c h 0 st)) - set (err st)"
    and "length d \<le> 4085 \<Longrightarrow>
           files (fs (unpack_loop d c h 0 st)) (outpath d 7) = files (fs st) (outpath d 7)"
proof -
  from unpack_loop_upto [of 0 7 d c h st] obtain st' ms where
    eq: "unpack_loop d c h 0 st = unpack_loop d c h (7 + 1) (unpack_segment d c h 7 st')"
    and fl: "\<forall>p. (\<forall>j. 0 \<le> j \<and> j < 7 \<longrightarrow> p \<noteq> outpath d j) \<longrightarrow> files (fs st') p = files (fs st) p"
    and ms: "err st' = err st @ ms" "set ms \<subseteq> (\<Union>j \<in> {0..<7}. segment_msgs d j)"
    by auto
  have fin: "unpack_loop d c h 0 st = st'"
    unfolding eq by (simp add: unpack_segment_absent [OF assms] unpack_loop_done)
  have "Skipping (default_file_names ! 7) \<notin> segment_msgs d j" if "j < 7" for j
  proof -
    from that have "default_file_names ! j \<noteq> default_file_names ! 7"
      by (simp add: nth_eq_iff_index_eq [OF distinct_default_file_names] length_default_file_names)
    then show ?thesis by (auto simp: segment_msgs_def)
  qed
  with ms(2) have "Skipping (default_file_names ! 7) \<notin> set ms" by fastforce
  with ms(1) show "Skipping (default_file_names ! 7) \<notin> set (err (unpack_loop d c h 0 st)) - set (err st)"
    by (simp add: fin)
  assume len: "length d \<le> 4085"
  have "\<forall>j. 0 \<le> j \<and> j < 7 \<longrightarrow> outpath d 7 \<noteq> outpath d j"
  proof (intro allI impI notI)
    fix j :: nat assume j: "0 \<le> j \<and> j < 7" and e: "outpath d 7 = outpath d j"
    from j have "(7::nat) < 8" "j < 8" by simp_all
    from outpath_inj [OF len this e] j show False by simp
  qed
  with fl show "files (fs (unpack_loop d c h 0 st)) (outpath d 7) = files (fs st) (outpath d 7)"
    by (simp add: fin)
qed

lemma main_unpack:
  "main w [prog, ''unpack'', inp, d] =
     (unpack_pbp (start w) inp d,
      case exited (unpack_pbp (start w) inp d) of None \<Rightarrow> 0 | Some c \<Rightarrow> c)"
  by (simp add: main_def Let_def)

lemma unpack_pbp_valid:
  assumes "files (fs st) inp = Some c" and "40 \<le> length c"
    and "fst (validate_header (read_header (take 40 c))) = 0" and "mkdir_ok (fs st) d"
  shows "unpack_pbp st inp d = unpack_loop d c (read_header (take 40 c)) 0 st"
proof -
  obtain ms where "validate_header (read_header (take 40 c)) = (0, ms)"
    using assms(3) by (cases "validate_header (read_header (take 40 c))") simp
  with assms show ?thesis
    by (simp add: unpack_pbp_def sizeof_PBPHeader_def)
qed

lemma cut_container_header: "read_header (take 40 cut_container) = one_byte_header"
proof -
  have l: "length (header_bytes one_byte_header) = 40"
    by (simp add: length_header_bytes one_byte_header_def)
  then have "take 40 cut_container = header_bytes one_byte_header"
    by (simp add: cut_container_def one_byte_container_def)
  moreover have "read_header (header_bytes one_byte_header @ []) = one_byte_header"
    by (rule read_header_bytes) (simp_all add: one_byte_header_def)
  ultimately show ?thesis by simp
qed

lemma length_cut_container: "length cut_container = 46"
  by (simp add: cut_container_def one_byte_container_def length_header_bytes one_byte_header_def)

text \<open>
  \<^bold>\<open>C6\<close>. (as amended) Take a container whose header validates, cut so that at least the 40
  header bytes remain and the file length is below \<^verbatim>\<open>offsets[7]\<close>, and an output directory
  that can be created and whose path has at most 4085 characters. Then \<^verbatim>\<open>unpack\<close> ends
  with exit status 0. Segment 7 has computed length 0: its round changes nothing, no
  \<^verbatim>\<open>Skipping DATA.PSAR\<close> line is printed and no file is written for it. Every earlier
  segment of positive length whose range, from its offset to its offset plus its length,
  starts at byte 40 or later and ends within the cut file, and whose output file can be
  created and can take the bytes, gets a file of exactly its computed length.
\<close>

theorem unpack_truncated_container:
  fixes w :: world and inp dir prog :: string and c :: "byte list"
  defines "h \<equiv> read_header (take 40 c)"
  defines "r \<equiv> main w [prog, ''unpack'', inp, dir]"
  assumes "files w inp = Some c" and "40 \<le> length c"
    and "fst (validate_header h) = 0"
    and "int (length c) < uint (offset h ! 7)"
    and "mkdir_ok w dir" and "length dir \<le> 4085"
  shows "snd r = 0 \<and> exited (fst r) = None \<and>
         segment_size h (int (length c)) 7 = 0 \<and>
         (\<forall>st. unpack_segment dir c h 7 st = st) \<and>
         Skipping ''DATA.PSAR'' \<notin> set (err (fst r)) \<and>
         files (fs (fst r)) (outpath dir 7) = files w (outpath dir 7) \<and>
         (\<forall>i < 7.
            segment_size h (int (length c)) i \<noteq> 0 \<and> 40 \<le> uint (offset h ! i) \<and>
            uint (offset h ! i) + uint (segment_size h (int (length c)) i) \<le> int (length c) \<and>
            creatable w (outpath dir i) \<and>
            room_for w (outpath dir i) (unat (segment_size h (int (length c)) i)) \<longrightarrow>
            (\<exists>bs. files (fs (fst r)) (outpath dir i) = Some bs \<and>
                  length bs = unat (segment_size h (int (length c)) i)))"
proof -
  let ?L = "unpack_loop dir c h 0 (start w)"
  obtain ms where v: "validate_header h = (0, ms)"
    using assms(5) by (cases "validate_header h") simp
  have u: "unpack_pbp (start w) inp dir = ?L"
    using assms(3,4,7) v
    by (simp add: unpack_pbp_def start_def sizeof_PBPHeader_def h_def [symmetric])
  have r: "r = (?L, case exited ?L of None \<Rightarrow> 0 | Some c \<Rightarrow> c)"
    by (simp add: r_def main_def Let_def u)
  have ex: "exited ?L = None" by (simp add: unpack_loop_exited start_def)
  have lt: "int (length c) < 2 ^ 32"
    using assms(6) uint_lt2p [of "offset h ! 7"] by simp
  moreover have "uint (word_of_int (int (length c)) :: u32) = int (length c) mod 2 ^ LENGTH(32)"
    by (rule uint_word_of_int)
  ultimately have "uint (word_of_int (int (length c)) :: u32) = int (length c)"
    by simp
  with assms(6) have "\<not> (word_of_int (int (length c)) :: u32) > offset h ! 7"
    by (simp add: word_less_def)
  then have z: "segment_size h (int (length c)) 7 = 0"
    by (simp add: segment_size_def)
  have n7: "default_file_names ! 7 = ''DATA.PSAR''" by (simp add: default_file_names_def)
  from unpack_loop_last_absent(1) [OF z, of dir "start w"]
  have sk: "Skipping ''DATA.PSAR'' \<notin> set (err ?L)" by (simp add: n7 start_def)
  from unpack_loop_last_absent(2) [OF z assms(8), of "start w"]
  have f7: "files (fs ?L) (outpath dir 7) = files w (outpath dir 7)" by (simp add: start_def)
  have wr: "\<exists>bs. files (fs ?L) (outpath dir i) = Some bs \<and>
                  length bs = unat (segment_size h (int (length c)) i)"
    if "i < 7" "segment_size h (int (length c)) i \<noteq> 0" "40 \<le> uint (offset h ! i)"
      "uint (offset h ! i) + uint (segment_size h (int (length c)) i) \<le> int (length c)"
      "creatable w (outpath dir i)"
      "room_for w (outpath dir i) (unat (segment_size h (int (length c)) i))" for i
  proof -
    have i8: "i < 8" using that(1) by simp
    have g: "uint (offset h ! i) - 40 + uint (segment_size h (int (length c)) i) \<le> int (length c)"
      using that(4) by simp
    have "files (fs ?L) (outpath dir i) =
            Some (take (unat (segment_size h (int (length c)) i))
                   (drop (nat (uint (offset h ! i) - 40)) c))"
      by (rule unpack_loop_written [OF i8 assms(8) that(2,3) g])
        (use that in \<open>simp_all add: start_def\<close>)
    moreover have "uint (segment_size h (int (length c)) i) = int (unat (segment_size h (int (length c)) i))"
      by simp
    with that(3) g have "nat (uint (offset h ! i) - 40) + unat (segment_size h (int (length c)) i)
        \<le> length c" by linarith
    ultimately show ?thesis by simp
  qed
  from ex z sk f7 wr unpack_segment_absent [OF z, of dir] show ?thesis
    by (simp add: r ex)
qed

theorem unpack_truncated_container_witness:
  "files truncated_world ''cut.pbp'' = Some cut_container \<and> 40 \<le> length cut_container \<and>
   fst (validate_header (read_header (take 40 cut_container))) = 0 \<and>
   int (length cut_container) < uint (offset (read_header (take 40 cut_container)) ! 7) \<and>
   mkdir_ok truncated_world ''dir'' \<and> length ''dir'' \<le> 4085 \<and> (5::nat) < 7 \<and>
   segment_size (read_header (take 40 cut_container)) (int (length cut_container)) 5 \<noteq> 0 \<and>
   40 \<le> uint (offset (read_header (take 40 cut_container)) ! 5) \<and>
   uint (offset (read_header (take 40 cut_container)) ! 5) +
     uint (segment_size (read_header (take 40 cut_container)) (int (length cut_container)) 5)
     \<le> int (length cut_container) \<and>
   creatable truncated_world (outpath ''dir'' 5) \<and>
   room_for truncated_world (outpath ''dir'' 5) 1 \<and>
   snd (main truncated_world [''pbptool'', ''unpack'', ''cut.pbp'', ''dir'']) = 0 \<and>
   (\<exists>bs. files (fs (fst (main truncated_world [''pbptool'', ''unpack'', ''cut.pbp'', ''dir''])))
           (outpath ''dir'' 5) = Some bs \<and> length bs = 1)"
proof -
  let ?h = "read_header (take 40 cut_container)"
  have h1: "files truncated_world ''cut.pbp'' = Some cut_container"
    by (simp add: truncated_world_def)
  have h2: "40 \<le> length cut_container" by (simp add: length_cut_container)
  have h3: "fst (validate_header ?h) = 0"
    by (simp add: cut_container_header validate_header_def one_byte_header_def)
  have h4: "int (length cut_container) < uint (offset ?h ! 7)"
    by (simp add: cut_container_header length_cut_container one_byte_header_def)
  have h5: "mkdir_ok truncated_world ''dir''" by (simp add: truncated_world_def)
  have h6: "length ''dir'' \<le> 4085" by simp
  have s5: "segment_size ?h (int (length cut_container)) 5 = 1"
    by (simp add: cut_container_header segment_size_def one_byte_header_def)
  have o5: "uint (offset ?h ! 5) = 45"
    by (simp add: cut_container_header one_byte_header_def)
  have cr: "creatable truncated_world (outpath ''dir'' 5)" by (simp add: truncated_world_def)
  have ro: "room_for truncated_world (outpath ''dir'' 5) 1"
    by (simp add: truncated_world_def room_for_def)
  note t = unpack_truncated_container [OF h1 h2 h3 h4 h5 h6, of "''pbptool''"]
  from t have e: "snd (main truncated_world [''pbptool'', ''unpack'', ''cut.pbp'', ''dir'']) = 0"
    by blast
  from t have "\<forall>i < 7.
            segment_size ?h (int (length cut_container)) i \<noteq> 0 \<and> 40 \<le> uint (offset ?h ! i) \<and>
            uint (offset ?h ! i) + uint (segment_size ?h (int (length cut_container)) i)
              \<le> int (length cut_container) \<and>
            creatable truncated_world (outpath ''dir'' i) \<and>
            room_for truncated_world (outpath ''dir'' i)
              (unat (segment_size ?h (int (length cut_container)) i)) \<longrightarrow>
            (\<exists>bs. files (fs (fst (main truncated_world [''pbptool'', ''unpack'', ''cut.pbp'', ''dir''])))
                    (outpath ''dir'' i) = Some bs \<and>
                  length bs = unat (segment_size ?h (int (length cut_container)) i))"
    by blast
  from this [rule_format, of 5] s5 o5 cr ro
  have w: "\<exists>bs. files (fs (fst (main truncated_world [''pbptool'', ''unpack'', ''cut.pbp'', ''dir''])))
           (outpath ''dir'' 5) = Some bs \<and> length bs = 1"
    by (simp add: length_cut_container)
  from h1 h2 h3 h4 h5 h6 s5 o5 cr ro e w show ?thesis by (simp add: length_cut_container)
qed

lemma mix_container_header: "read_header (take 40 mix_container) = mix_header"
proof -
  have l: "length (header_bytes mix_header) = 40"
    by (simp add: length_header_bytes mix_header_def)
  then have "take 40 mix_container = header_bytes mix_header"
    by (simp add: mix_container_def)
  moreover have "read_header (header_bytes mix_header @ []) = mix_header"
    by (rule read_header_bytes) (simp_all add: mix_header_def)
  ultimately show ?thesis by simp
qed

lemma length_mix_container: "length mix_container = 46"
  by (simp add: mix_container_def length_header_bytes mix_header_def)

lemma length_long_dir: "length long_dir = 4090"
  by (simp add: long_dir_def length_concat sum_list_replicate)

lemma outpath_long: "outpath long_dir i = long_dir @ take 5 (''/'' @ default_file_names ! i)"
  by (simp add: outpath_def length_long_dir)

text \<open>
  \<^bold>\<open>C6\<close>. The claim as stated fails in several ways. On the container of eight one-byte
  segments cut to 46 bytes, below its last offset 47, \<^verbatim>\<open>unpack\<close> exits with 0 but prints
  no diagnostic at all: segment 7 is passed over in silence. Cut to 10 bytes, the header
  cannot be read and the exit status is 1. Where the directory cannot be made the exit
  status is 1 as well, and where no file can be created segment 5, whose range is valid,
  gets no file. With a directory path of 4090 characters the output paths are cut to
  4095 characters, \<^verbatim>\<open>ICON0.PNG\<close> and \<^verbatim>\<open>ICON1.PMF\<close> share one path, and the file of
  segment 1 (one byte, range valid) ends with the two bytes of segment 2.
\<close>

theorem unpack_truncated_silent_counterexample:
  "int (length cut_container) < uint (offset (read_header (take 40 cut_container)) ! 7) \<and>
   snd (main truncated_world [''pbptool'', ''unpack'', ''cut.pbp'', ''dir'']) = 0 \<and>
   err (fst (main truncated_world [''pbptool'', ''unpack'', ''cut.pbp'', ''dir''])) = [] \<and>
   int (length tiny_container) < uint (offset one_byte_header ! 7) \<and>
   snd (main truncated_world [''pbptool'', ''unpack'', ''tiny.pbp'', ''dir'']) = 1 \<and>
   snd (main no_mkdir_world [''pbptool'', ''unpack'', ''cut.pbp'', ''dir'']) = 1 \<and>
   segment_size (read_header (take 40 cut_container)) (int (length cut_container)) 5 = 1 \<and>
   uint (offset (read_header (take 40 cut_container)) ! 5) = 45 \<and>
   snd (main no_create_world [''pbptool'', ''unpack'', ''cut.pbp'', ''dir'']) = 0 \<and>
   files (fs (fst (main no_create_world [''pbptool'', ''unpack'', ''cut.pbp'', ''dir''])))
     (outpath ''dir'' 5) = None \<and>
   length long_dir = 4090 \<and>
   int (length mix_container) < uint (offset (read_header (take 40 mix_container)) ! 7) \<and>
   segment_size (read_header (take 40 mix_container)) (int (length mix_container)) 1 = 1 \<and>
   uint (offset (read_header (take 40 mix_container)) ! 1) = 41 \<and>
   snd (main mix_world [''pbptool'', ''unpack'', ''mix.pbp'', long_dir]) = 0 \<and>
   length (the (files (fs (fst (main mix_world [''pbptool'', ''unpack'', ''mix.pbp'', long_dir])))
     (outpath long_dir 1))) = 2"
proof -
  let ?h = "read_header (take 40 cut_container)"
  let ?st = "start truncated_world"
  have a: "int (length cut_container) < uint (offset ?h ! 7)"
    by (simp add: cut_container_header length_cut_container one_byte_header_def)
  have u: "unpack_pbp ?st ''cut.pbp'' ''dir'' = unpack_loop ''dir'' cut_container ?h 0 ?st"
    by (rule unpack_pbp_valid)
      (simp_all add: start_def truncated_world_def length_cut_container cut_container_header
        validate_header_def one_byte_header_def)
  have q: "\<forall>i. 0 \<le> i \<and> i < 8 \<longrightarrow>
      segment_size ?h (int (length cut_container)) i = 0 \<or>
      40 \<le> uint (offset ?h ! i) \<and>
      uint (offset ?h ! i) - 40 + uint (segment_size ?h (int (length cut_container)) i)
        \<le> int (length cut_container) \<and>
      creatable (fs ?st) (outpath ''dir'' i) \<and>
      room_for (fs ?st) (outpath ''dir'' i) (unat (segment_size ?h (int (length cut_container)) i))"
  proof (intro allI impI)
    fix i :: nat assume "0 \<le> i \<and> i < 8"
    then have "i \<in> {0, 1, 2, 3, 4, 5, 6, 7}" by auto
    then show "segment_size ?h (int (length cut_container)) i = 0 \<or>
      40 \<le> uint (offset ?h ! i) \<and>
      uint (offset ?h ! i) - 40 + uint (segment_size ?h (int (length cut_container)) i)
        \<le> int (length cut_container) \<and>
      creatable (fs ?st) (outpath ''dir'' i) \<and>
      room_for (fs ?st) (outpath ''dir'' i) (unat (segment_size ?h (int (length cut_container)) i))"
      by (auto simp: cut_container_header length_cut_container one_byte_header_def
          segment_size_def start_def truncated_world_def room_for_def)
  qed
  have e: "err (unpack_loop ''dir'' cut_container ?h 0 ?st) = []"
    using unpack_loop_quiet [OF q] by (simp add: start_def)
  have x: "exited (unpack_loop ''dir'' cut_container ?h 0 ?st) = None"
    by (simp add: unpack_loop_exited start_def)
  have t: "length tiny_container = 10"
    by (simp add: tiny_container_def one_byte_container_def length_header_bytes one_byte_header_def)
  have b: "unpack_pbp ?st ''tiny.pbp'' ''dir'' = print_error_and_exit ?st ''Failed to read header''"
    by (simp add: unpack_pbp_def start_def truncated_world_def t sizeof_PBPHeader_def)
  have c: "int (length tiny_container) < uint (offset one_byte_header ! 7)"
    by (simp add: t one_byte_header_def)
  have first: "snd (main truncated_world [''pbptool'', ''unpack'', ''cut.pbp'', ''dir'']) = 0 \<and>
      err (fst (main truncated_world [''pbptool'', ''unpack'', ''cut.pbp'', ''dir''])) = [] \<and>
      snd (main truncated_world [''pbptool'', ''unpack'', ''tiny.pbp'', ''dir'']) = 1"
    by (simp add: main_unpack u e x b print_error_and_exit_def die_def)
  have v: "validate_header one_byte_header = (0, [])"
    by (simp add: validate_header_def one_byte_header_def)
  have md: "unpack_pbp (start no_mkdir_world) ''cut.pbp'' ''dir'' =
      die (start no_mkdir_world) [Failed_mkdir ''dir'']"
    by (simp add: unpack_pbp_def start_def no_mkdir_world_def truncated_world_def
        length_cut_container sizeof_PBPHeader_def cut_container_header v)
  have second: "snd (main no_mkdir_world [''pbptool'', ''unpack'', ''cut.pbp'', ''dir'']) = 1"
    by (simp add: main_unpack md die_def)
  have s5: "segment_size ?h (int (length cut_container)) 5 = 1"
    by (simp add: cut_container_header length_cut_container segment_size_def one_byte_header_def)
  have o5: "uint (offset ?h ! 5) = 45"
    by (simp add: cut_container_header one_byte_header_def)
  let ?nc = "start no_create_world"
  have nu: "unpack_pbp ?nc ''cut.pbp'' ''dir'' = unpack_loop ''dir'' cut_container ?h 0 ?nc"
    by (rule unpack_pbp_valid)
      (simp_all add: start_def no_create_world_def truncated_world_def length_cut_container
        cut_container_header validate_header_def one_byte_header_def)
  have "fs (unpack_loop ''dir'' cut_container ?h 0 ?nc) = fs ?nc"
    by (rule unpack_loop_refused) (simp add: start_def no_create_world_def)
  then have nf: "files (fs (unpack_loop ''dir'' cut_container ?h 0 ?nc)) (outpath ''dir'' 5) = None"
    by (simp add: start_def no_create_world_def truncated_world_def outpath_def
        default_file_names_def)
  have third: "snd (main no_create_world [''pbptool'', ''unpack'', ''cut.pbp'', ''dir'']) = 0 \<and>
      files (fs (fst (main no_create_world [''pbptool'', ''unpack'', ''cut.pbp'', ''dir''])))
        (outpath ''dir'' 5) = None"
    by (simp add: main_unpack nu nf unpack_loop_exited) (simp add: start_def)
  let ?m = "read_header (take 40 mix_container)"
  let ?ms = "start mix_world"
  have ld: "length long_dir = 4090" by (rule length_long_dir)
  have m7: "int (length mix_container) < uint (offset ?m ! 7)"
    by (simp add: mix_container_header length_mix_container mix_header_def)
  have m1: "segment_size ?m (int (length mix_container)) 1 = 1"
    by (simp add: mix_container_header length_mix_container segment_size_def mix_header_def)
  have mo: "uint (offset ?m ! 1) = 41" by (simp add: mix_container_header mix_header_def)
  have mu: "unpack_pbp ?ms ''mix.pbp'' long_dir = unpack_loop long_dir mix_container ?m 0 ?ms"
    by (rule unpack_pbp_valid)
      (simp_all add: start_def mix_world_def length_mix_container mix_container_header
        validate_header_def mix_header_def)
  have same: "outpath long_dir 1 = outpath long_dir 2"
    by (simp add: outpath_long default_file_names_def)
  have later: "\<forall>j. 2 + 1 \<le> j \<and> j < 8 \<longrightarrow> outpath long_dir 2 \<noteq> outpath long_dir j"
  proof (intro allI impI)
    fix j :: nat assume "2 + 1 \<le> j \<and> j < 8"
    then have "j \<in> {3, 4, 5, 6, 7}" by auto
    then show "outpath long_dir 2 \<noteq> outpath long_dir j"
      by (auto simp: outpath_long default_file_names_def)
  qed
  have m2: "segment_size ?m (int (length mix_container)) 2 = 2"
    by (simp add: mix_container_header length_mix_container segment_size_def mix_header_def)
  have mo2: "uint (offset ?m ! 2) = 42" by (simp add: mix_container_header mix_header_def)
  have "files (fs (unpack_loop long_dir mix_container ?m 0 ?ms)) (outpath long_dir 2) =
      Some (take (unat (segment_size ?m (int (length mix_container)) 2))
             (drop (nat (uint (offset ?m ! 2) - 40)) mix_container))"
    by (rule unpack_loop_written_last [OF _ later])
      (use m2 mo2 in \<open>simp_all add: length_mix_container start_def mix_world_def room_for_def\<close>)
  with m2 mo2 have "length (the (files (fs (unpack_loop long_dir mix_container ?m 0 ?ms))
      (outpath long_dir 2))) = 2"
    by (simp add: length_mix_container)
  then have mf: "length (the (files (fs (unpack_loop long_dir mix_container ?m 0 ?ms))
      (outpath long_dir 1))) = 2"
    unfolding same [symmetric] .
  have fourth: "snd (main mix_world [''pbptool'', ''unpack'', ''mix.pbp'', long_dir]) = 0 \<and>
      length (the (files (fs (fst (main mix_world [''pbptool'', ''unpack'', ''mix.pbp'', long_dir])))
        (outpath long_dir 1))) = 2"
  proof -
    have "main mix_world [''pbptool'', ''unpack'', ''mix.pbp'', long_dir] =
        (unpack_loop long_dir mix_container ?m 0 ?ms, 0)"
      unfolding main_unpack mu unpack_loop_exited by (simp add: start_def)
    with mf show ?thesis by (simp only: fst_conv snd_conv simp_thms)
  qed
  from a c first second s5 o5 third ld m7 m1 mo fourth show ?thesis by blast
qed

section \<open>Pack followed by unpack or analyze\<close>

lemma main_pack:
  "main w [prog, ''pack'', outp, a, b, c, d, e, f, g, h] =
     (pack_pbp (start w) outp [Some a, Some b, Some c, Some d, Some e, Some f, Some g, Some h],
      case exited (pack_pbp (start w) outp
             [Some a, Some b, Some c, Some d, Some e, Some f, Some g, Some h]) of
        None \<Rightarrow> 0 | Some c \<Rightarrow> c)"
  by (simp add: main_def Let_def arg_def upt8)

lemma main_analyze:
  "main w [prog, ''analyze'', inp] =
     (analyze_file (start w) inp,
      case exited (analyze_file (start w) inp) of None \<Rightarrow> 0 | Some c \<Rightarrow> c)"
  by (simp add: main_def Let_def)

lemma one_byte_container_bytes:
  "one_byte_container =
     [0, 0x50, 0x42, 0x50, 0, 0, 1, 0, 40, 0, 0, 0, 41, 0, 0, 0, 42, 0, 0, 0, 43, 0, 0, 0,
      44, 0, 0, 0, 45, 0, 0, 0, 46, 0, 0, 0, 47, 0, 0, 0, 10, 11, 12, 13, 14, 15, 16, 17]"
  by (simp add: one_byte_container_def header_bytes_def one_byte_header_def wr16_def wr32_def)

lemma demo_eight_ok: "exited (pack_pbp (start demo_world) ''out.pbp'' eight_files) = None"
  by (rule pack_pbp_succeeds)
    (simp_all add: eight_files_def start_def demo_world_def unreadable_def read_file_to_buffer_def)

lemma demo_eight_bytes:
  "map (slot_bytes demo_world) eight_files = [[10], [11], [12], [13], [14], [15], [16], [17]]"
  by (simp add: eight_files_def slot_bytes_def slot_buffer_def buffer_bytes_def
      read_file_to_buffer_def demo_world_def)

lemma packed_world_files:
  "files packed_world = (files demo_world)(''out.pbp'' \<mapsto> one_byte_container)"
proof -
  have l: "length eight_files = 8" by (simp add: eight_files_def)
  have h: "pack_header demo_world eight_files = one_byte_header"
    by (simp add: pack_header_def demo_eight_bytes [symmetric, simplified] one_byte_header_def
        eight_files_def slot_bytes_def slot_buffer_def buffer_bytes_def read_file_to_buffer_def
        demo_world_def)
  have m: "main demo_world roundtrip_pack_argv =
      (pack_pbp (start demo_world) ''out.pbp'' eight_files, 0)"
    using demo_eight_ok by (simp add: roundtrip_pack_argv_def main_pack eight_files_def)
  from pack_pbp_success(1) [OF l demo_eight_ok demo_room] show ?thesis
    by (simp add: packed_world_def m start_def h demo_eight_bytes one_byte_container_def)
qed

lemma packed_world_static:
  "creatable packed_world = (\<lambda>p. True)" "room packed_world = (\<lambda>p. None)"
  "mkdir_ok packed_world = (\<lambda>p. True)" "buffered packed_world = block_buffer"
proof -
  have m: "packed_world = fs (pack_pbp (start demo_world) ''out.pbp'' eight_files)"
    by (simp add: packed_world_def roundtrip_pack_argv_def main_pack eight_files_def)
  show "creatable packed_world = (\<lambda>p. True)" "room packed_world = (\<lambda>p. None)"
    "mkdir_ok packed_world = (\<lambda>p. True)" "buffered packed_world = block_buffer"
    unfolding m using pack_pbp_static [of "start demo_world" "''out.pbp''" eight_files]
    by (simp_all add: start_def demo_world_def)
qed

lemma one_byte_container_header: "read_header (take 40 one_byte_container) = one_byte_header"
proof -
  have "length (header_bytes one_byte_header) = 40"
    by (simp add: length_header_bytes one_byte_header_def)
  then have "take 40 one_byte_container = header_bytes one_byte_header"
    by (simp add: one_byte_container_def)
  moreover have "read_header (header_bytes one_byte_header @ []) = one_byte_header"
    by (rule read_header_bytes) (simp_all add: one_byte_header_def)
  ultimately show ?thesis by simp
qed

lemma length_one_byte_container: "length one_byte_container = 48"
  by (simp add: one_byte_container_bytes)

lemma unpacked_world_loop:
  "main packed_world [''pbptool'', ''unpack'', ''out.pbp'', ''dir''] =
     (unpack_loop ''dir'' one_byte_container one_byte_header 0 (start packed_world), 0)"
proof -
  have "unpack_pbp (start packed_world) ''out.pbp'' ''dir'' =
      unpack_loop ''dir'' one_byte_container (read_header (take 40 one_byte_container)) 0
        (start packed_world)"
    by (rule unpack_pbp_valid)
      (simp_all add: start_def packed_world_files packed_world_static one_byte_container_header
        validate_header_def one_byte_header_def length_one_byte_container)
  then show ?thesis
    by (simp add: main_unpack one_byte_container_header unpack_loop_exited start_def)
qed

lemma unpacked_segment:
  assumes "i < 8"
  shows "files unpacked_world (outpath ''dir'' i) = Some [one_byte_container ! i]"
proof -
  from assms have i: "i \<in> {0, 1, 2, 3, 4, 5, 6, 7}" by auto
  have l: "int (length one_byte_container) = 48" by (simp add: one_byte_container_bytes)
  from i have sz: "segment_size one_byte_header 48 i = 1"
    by (auto simp: segment_size_def one_byte_header_def)
  from i have off: "uint (offset one_byte_header ! i) = 40 + int i"
    by (auto simp: one_byte_header_def)
  have "files (fs (unpack_loop ''dir'' one_byte_container one_byte_header 0 (start packed_world)))
          (outpath ''dir'' i) =
        Some (take (unat (segment_size one_byte_header (int (length one_byte_container)) i))
               (drop (nat (uint (offset one_byte_header ! i) - 40)) one_byte_container))"
    by (rule unpack_loop_written [OF assms])
      (use assms in \<open>simp_all add: sz off l start_def packed_world_static room_for_def\<close>)
  moreover have "take 1 (drop i one_byte_container) = [one_byte_container ! i]"
    using assms l by (simp add: take_Suc_conv_app_nth [of 0 , simplified] Cons_nth_drop_Suc [symmetric])
  ultimately show ?thesis
    by (simp add: unpacked_world_def unpacked_world_loop l sz off)
qed

text \<open>
  \<^bold>\<open>C1\<close>. The round trip fails. Packing eight sources of one byte each (10 to 17) gives the
  container of 48 bytes with offsets 40 to 47, and unpacking it ends with status 0 and
  without a diagnostic, but the file written for segment \<open>i\<close> holds byte \<open>i\<close> of the
  container, a header byte, not the source: \<^verbatim>\<open>unpack_pbp\<close> reads the whole file into
  \<^verbatim>\<open>content\<close> and then takes the segment at the stored offset minus 40.
\<close>

theorem unpack_shifted_by_header:
  "snd (main demo_world roundtrip_pack_argv) = 0 \<and>
   files packed_world ''out.pbp'' = Some one_byte_container \<and>
   main packed_world [''pbptool'', ''unpack'', ''out.pbp'', ''dir''] =
     (\<lparr>fs = unpacked_world, out = [], err = [], exited = None\<rparr>, 0) \<and>
   files demo_world ''f0'' = Some [10] \<and> files unpacked_world ''dir/PARAM.SFO'' = Some [0] \<and>
   files demo_world ''f1'' = Some [11] \<and> files unpacked_world ''dir/ICON0.PNG'' = Some [0x50] \<and>
   files demo_world ''f2'' = Some [12] \<and> files unpacked_world ''dir/ICON1.PMF'' = Some [0x42] \<and>
   files demo_world ''f3'' = Some [13] \<and> files unpacked_world ''dir/PIC0.PNG'' = Some [0x50] \<and>
   files demo_world ''f4'' = Some [14] \<and> files unpacked_world ''dir/PIC1.PNG'' = Some [0] \<and>
   files demo_world ''f5'' = Some [15] \<and> files unpacked_world ''dir/SND0.AT3'' = Some [0] \<and>
   files demo_world ''f6'' = Some [16] \<and> files unpacked_world ''dir/DATA.PSP'' = Some [1] \<and>
   files demo_world ''f7'' = Some [17] \<and> files unpacked_world ''dir/DATA.PSAR'' = Some [0]"
proof -
  let ?L = "unpack_loop ''dir'' one_byte_container one_byte_header 0 (start packed_world)"
  have p: "snd (main demo_world roundtrip_pack_argv) = 0"
    using demo_eight_ok by (simp add: roundtrip_pack_argv_def main_pack eight_files_def)
  have l: "int (length one_byte_container) = 48" by (simp add: one_byte_container_bytes)
  have q: "\<forall>i. 0 \<le> i \<and> i < 8 \<longrightarrow>
      segment_size one_byte_header (int (length one_byte_container)) i = 0 \<or>
      40 \<le> uint (offset one_byte_header ! i) \<and>
      uint (offset one_byte_header ! i) - 40 +
        uint (segment_size one_byte_header (int (length one_byte_container)) i)
        \<le> int (length one_byte_container) \<and>
      creatable (fs (start packed_world)) (outpath ''dir'' i) \<and>
      room_for (fs (start packed_world)) (outpath ''dir'' i)
        (unat (segment_size one_byte_header (int (length one_byte_container)) i))"
  proof (intro allI impI)
    fix i :: nat assume "0 \<le> i \<and> i < 8"
    then have "i \<in> {0, 1, 2, 3, 4, 5, 6, 7}" by auto
    then show "segment_size one_byte_header (int (length one_byte_container)) i = 0 \<or>
      40 \<le> uint (offset one_byte_header ! i) \<and>
      uint (offset one_byte_header ! i) - 40 +
        uint (segment_size one_byte_header (int (length one_byte_container)) i)
        \<le> int (length one_byte_container) \<and>
      creatable (fs (start packed_world)) (outpath ''dir'' i) \<and>
      room_for (fs (start packed_world)) (outpath ''dir'' i)
        (unat (segment_size one_byte_header (int (length one_byte_container)) i))"
      unfolding l
      by (auto simp: one_byte_header_def segment_size_def start_def packed_world_static room_for_def)
  qed
  have e: "err ?L = []" using unpack_loop_quiet [OF q] by (simp add: start_def)
  have x: "exited ?L = None" by (simp add: unpack_loop_exited start_def)
  have o: "out ?L = []"
  proof -
    have "out (unpack_loop d c h k st) = out st" for d c h k st
    proof (induction d c h k st rule: unpack_loop.induct)
      case (1 d c h k st)
      then show ?case by (subst unpack_loop.simps) (simp add: unpack_segment_out)
    qed
    then show ?thesis by (simp add: start_def)
  qed
  have u: "fs ?L = unpacked_world" by (simp add: unpacked_world_def unpacked_world_loop)
  have r: "?L = \<lparr>fs = unpacked_world, out = [], err = [], exited = None\<rparr>"
    using e x o u by (cases ?L) simp
  have paths: "outpath ''dir'' 0 = ''dir/PARAM.SFO''" "outpath ''dir'' 1 = ''dir/ICON0.PNG''"
    "outpath ''dir'' 2 = ''dir/ICON1.PMF''" "outpath ''dir'' 3 = ''dir/PIC0.PNG''"
    "outpath ''dir'' 4 = ''dir/PIC1.PNG''" "outpath ''dir'' 5 = ''dir/SND0.AT3''"
    "outpath ''dir'' 6 = ''dir/DATA.PSP''" "outpath ''dir'' 7 = ''dir/DATA.PSAR''"
    "outpath ''dir'' (Suc 0) = ''dir/ICON0.PNG''"
    by (simp_all add: outpath_def default_file_names_def)
  have s: "files unpacked_world ''dir/PARAM.SFO'' = Some [0]"
    "files unpacked_world ''dir/ICON0.PNG'' = Some [0x50]"
    "files unpacked_world ''dir/ICON1.PMF'' = Some [0x42]"
    "files unpacked_world ''dir/PIC0.PNG'' = Some [0x50]"
    "files unpacked_world ''dir/PIC1.PNG'' = Some [0]"
    "files unpacked_world ''dir/SND0.AT3'' = Some [0]"
    "files unpacked_world ''dir/DATA.PSP'' = Some [1]"
    "files unpacked_world ''dir/DATA.PSAR'' = Some [0]"
    using unpacked_segment [of 0] unpacked_segment [of 1] unpacked_segment [of 2]
      unpacked_segment [of 3] unpacked_segment [of 4] unpacked_segment [of 5]
      unpacked_segment [of 6] unpacked_segment [of 7]
    by (simp_all add: paths one_byte_container_bytes)
  have f: "files demo_world ''f0'' = Some [10]" "files demo_world ''f1'' = Some [11]"
    "files demo_world ''f2'' = Some [12]" "files demo_world ''f3'' = Some [13]"
    "files demo_world ''f4'' = Some [14]" "files demo_world ''f5'' = Some [15]"
    "files demo_world ''f6'' = Some [16]" "files demo_world ''f7'' = Some [17]"
    by (simp_all add: demo_world_def)
  from p s f show ?thesis
    by (simp add: packed_world_files unpacked_world_loop r)
qed

lemma scenario_world_files:
  "files scenario_world = (files demo_world)(''out.bin'' \<mapsto> sfo_container)"
proof -
  have l: "length sfo_and_psar = 8" by (simp add: sfo_and_psar_def)
  have h: "pack_header demo_world sfo_and_psar = sfo_header"
    by (simp add: pack_header_def sfo_and_psar_def demo_slot_bytes slot_bytes_NULL sfo_header_def)
  have c: "concat (map (slot_bytes demo_world) sfo_and_psar) = [1, 2]"
    by (simp add: sfo_and_psar_def demo_slot_bytes slot_bytes_NULL)
  have m: "main demo_world scenario_pack_argv =
      (pack_pbp (start demo_world) ''out.bin'' sfo_and_psar, 0)"
    using demo_pack_ok by (simp add: scenario_pack_argv_def main_pack sfo_and_psar_def)
  from pack_pbp_success(1) [OF l demo_pack_ok demo_room] show ?thesis
    by (simp add: scenario_world_def m start_def h c sfo_container_def)
qed

lemma sfo_container_header: "read_header (take 40 sfo_container) = sfo_header"
proof -
  have "length (header_bytes sfo_header) = 40"
    by (simp add: length_header_bytes sfo_header_def)
  then have "take 40 sfo_container = header_bytes sfo_header"
    by (simp add: sfo_container_def)
  moreover have "read_header (header_bytes sfo_header @ []) = sfo_header"
    by (rule read_header_bytes) (simp_all add: sfo_header_def)
  ultimately show ?thesis by simp
qed

text \<open>
  \<^bold>\<open>C4\<close>. After \<^verbatim>\<open>pack out.bin a.sfo NULL NULL NULL NULL NULL NULL data.bin\<close> with sources of
  one byte, the header offsets are 40 and then 41 seven times, and the last segment holds
  the byte of \<^verbatim>\<open>data.bin\<close> (the unpack loop computes length 1 for it). Yet
  \<^verbatim>\<open>analyze out.bin\<close> prints \<^verbatim>\<open>NULL\<close> for \<^verbatim>\<open>DATA.PSAR\<close>: its loop never reports segment
  7. Segment 0 is reported with offset 40, segments 1 to 6 as \<^verbatim>\<open>NULL\<close>.
\<close>

theorem analyze_reports_last_segment_absent:
  "snd (main demo_world scenario_pack_argv) = 0 \<and>
   files scenario_world ''out.bin'' = Some sfo_container \<and>
   offset (read_header (take 40 sfo_container)) = [40, 41, 41, 41, 41, 41, 41, 41] \<and>
   drop 41 sfo_container = [2] \<and>
   segment_size (read_header (take 40 sfo_container)) (int (length sfo_container)) 7 = 1 \<and>
   snd (main scenario_world [''pbptool'', ''analyze'', ''out.bin'']) = 0 \<and>
   out (fst (main scenario_world [''pbptool'', ''analyze'', ''out.bin''])) =
     [Header_banner, Signature_line [0x00, 0x50, 0x42, 0x50], Version_line 1 0, Offsets_banner,
      Offset_line ''PARAM.SFO'' (Some 40), Offset_line ''ICON0.PNG'' None,
      Offset_line ''ICON1.PMF'' None, Offset_line ''PIC0.PNG'' None,
      Offset_line ''PIC1.PNG'' None, Offset_line ''SND0.AT3'' None,
      Offset_line ''DATA.PSP'' None, Offset_line ''DATA.PSAR'' None]"
proof -
  have p: "snd (main demo_world scenario_pack_argv) = 0"
    using demo_pack_ok by (simp add: scenario_pack_argv_def main_pack sfo_and_psar_def)
  have l: "length sfo_container = 42"
    by (simp add: sfo_container_def length_header_bytes sfo_header_def)
  have lh: "length (header_bytes sfo_header) = 40"
    by (simp add: length_header_bytes sfo_header_def)
  have d: "drop 41 sfo_container = [2]" by (simp add: sfo_container_def lh)
  have o: "offset sfo_header = [40, 41, 41, 41, 41, 41, 41, 41]" by (simp add: sfo_header_def)
  have z: "segment_size sfo_header 42 7 = 1" by (simp add: segment_size_def sfo_header_def)
  have v: "validate_header sfo_header = (0, [])" by (simp add: validate_header_def sfo_header_def)
  have lines: "map (analyze_line sfo_header) [0..<8] =
      [Offset_line ''PARAM.SFO'' (Some 40), Offset_line ''ICON0.PNG'' None,
       Offset_line ''ICON1.PMF'' None, Offset_line ''PIC0.PNG'' None,
       Offset_line ''PIC1.PNG'' None, Offset_line ''SND0.AT3'' None,
       Offset_line ''DATA.PSP'' None, Offset_line ''DATA.PSAR'' None]"
    by (simp add: upt8 analyze_line_def sfo_header_def default_file_names_def)
  have a: "analyze_file (start scenario_world) ''out.bin'' =
      (start scenario_world)\<lparr>out := [Header_banner, Signature_line [0x00, 0x50, 0x42, 0x50],
         Version_line 1 0, Offsets_banner] @ map (analyze_line sfo_header) [0..<8]\<rparr>"
    by (simp add: analyze_file_def start_def scenario_world_files l sizeof_PBPHeader_def
        sfo_container_header v del: upt_Suc) (simp add: sfo_header_def)
  from a have a1: "exited (analyze_file (start scenario_world) ''out.bin'') = None"
    and a2: "out (analyze_file (start scenario_world) ''out.bin'') =
      [Header_banner, Signature_line [0x00, 0x50, 0x42, 0x50], Version_line 1 0, Offsets_banner] @
      map (analyze_line sfo_header) [0..<8]"
    by (simp_all add: start_def del: upt_Suc)
  from p d z show ?thesis
    by (simp add: scenario_world_files sfo_container_header o l main_analyze a1 a2 lines
        del: upt_Suc)
qed

end
